theory Spec2Isabelle
  imports Main "HOL-Library.AList" "HOL-Library.Sublist"
begin

section \<open>Python strings\<close>

text \<open>
  A Python \<open>str\<close> is a sequence of Unicode code points, and the regular expressions of
  the agent classify code points (\<open>\s\<close>, \<open>\d\<close>, \<open>\b\<close>), so a string is modelled
  as the list of its code points. ASCII literals are written through \<open>asc\<close>. Cyrillic
  literals are written through \<open>cyr\<close>, which reads a Latin transliteration by the table
  \<open>cyr_table\<close> (every character outside the table stands for itself).
\<close>

type_synonym ustr = "nat list"

definition asc :: "string \<Rightarrow> ustr" where
  "asc s = map of_char s"

definition cyr_table :: "(char \<times> nat) list" where
  "cyr_table =
    [(CHR ''a'', 0x430), (CHR ''b'', 0x431), (CHR ''v'', 0x432), (CHR ''g'', 0x433),
     (CHR ''d'', 0x434), (CHR ''e'', 0x435), (CHR ''j'', 0x436), (CHR ''z'', 0x437),
     (CHR ''i'', 0x438), (CHR ''y'', 0x439), (CHR ''k'', 0x43A), (CHR ''l'', 0x43B),
     (CHR ''m'', 0x43C), (CHR ''n'', 0x43D), (CHR ''o'', 0x43E), (CHR ''p'', 0x43F),
     (CHR ''r'', 0x440), (CHR ''s'', 0x441), (CHR ''t'', 0x442), (CHR ''u'', 0x443),
     (CHR ''f'', 0x444), (CHR ''h'', 0x445), (CHR ''c'', 0x446), (CHR ''C'', 0x447),
     (CHR ''S'', 0x448), (CHR ''W'', 0x449), (CHR ''Q'', 0x44A), (CHR ''Y'', 0x44B),
     (CHR ''X'', 0x44C), (CHR ''E'', 0x44D), (CHR ''U'', 0x44E), (CHR ''A'', 0x44F),
     (CHR ''O'', 0x451)]"

definition cyr :: "string \<Rightarrow> ustr" where
  "cyr s = map (\<lambda>c. case map_of cyr_table c of Some n \<Rightarrow> n | None \<Rightarrow> of_char c) s"

text \<open>\<open>x in s\<close> on strings: \<open>x\<close> occurs in \<open>s\<close> as a contiguous substring.\<close>

fun starts_with :: "ustr \<Rightarrow> ustr \<Rightarrow> bool" where
  "starts_with [] s = True"
| "starts_with (x # xs) [] = False"
| "starts_with (x # xs) (c # cs) = (x = c \<and> starts_with xs cs)"

fun contains :: "ustr \<Rightarrow> ustr \<Rightarrow> bool" where
  "contains x [] = (x = [])"
| "contains x (c # cs) = (starts_with x (c # cs) \<or> contains x cs)"

text \<open>\<open>sep.join(xs)\<close>.\<close>

fun join :: "ustr \<Rightarrow> ustr list \<Rightarrow> ustr" where
  "join sep [] = []"
| "join sep [x] = x"
| "join sep (x # y # ys) = x @ sep @ join sep (y # ys)"

text \<open>
  \<open>dict.fromkeys(xs)\<close>, read back in iteration order: the elements of \<open>xs\<close> without
  repetitions, each at the place of its first occurrence.
\<close>

definition fromkeys :: "'a list \<Rightarrow> 'a list" where
  "fromkeys xs = rev (remdups (rev xs))"

section \<open>The Unicode character database\<close>

text \<open>
  The classification of code points is Python's, tabulated here for the blocks the
  agent's own literals and examples use: ASCII, the Cyrillic letters U+0400..U+045F,
  the en dash U+2013 and the white space characters (the complete set of
  \<open>str.isspace\<close>). For every other code point the tables of the interpreter are taken
  as a parameter \<open>U\<close>, so that what is proved holds whatever they say.
\<close>

record ucd =
  ucd_alnum :: "nat \<Rightarrow> bool"
  ucd_decimal :: "nat \<Rightarrow> nat option"
  ucd_lower :: "ustr \<Rightarrow> ustr"
  ucd_casematch :: "nat \<Rightarrow> nat \<Rightarrow> bool"

definition is_space :: "nat \<Rightarrow> bool" where
  "is_space c =
    ((9 \<le> c \<and> c \<le> 13) \<or> (28 \<le> c \<and> c \<le> 32) \<or> c = 0x85 \<or> c = 0xA0 \<or> c = 0x1680
     \<or> (0x2000 \<le> c \<and> c \<le> 0x200A) \<or> c = 0x2028 \<or> c = 0x2029 \<or> c = 0x202F
     \<or> c = 0x205F \<or> c = 0x3000)"

definition is_cyrillic :: "nat \<Rightarrow> bool" where
  "is_cyrillic c = (0x400 \<le> c \<and> c \<le> 0x45F)"

definition tabulated :: "nat \<Rightarrow> bool" where
  "tabulated c = (c < 128 \<or> is_space c \<or> is_cyrillic c \<or> c = 0x2013)"

text \<open>The decimal value of a digit character (\<open>\d\<close> matches the characters that have one).\<close>

definition digit_value :: "ucd \<Rightarrow> nat \<Rightarrow> nat option" where
  "digit_value U c =
    (if 48 \<le> c \<and> c \<le> 57 then Some (c - 48)
     else if tabulated c then None
     else ucd_decimal U c)"

definition is_digit :: "ucd \<Rightarrow> nat \<Rightarrow> bool" where
  "is_digit U c = (digit_value U c \<noteq> None)"

text \<open>\<open>\w\<close>: alphanumeric or the underscore.\<close>

definition is_word :: "ucd \<Rightarrow> nat \<Rightarrow> bool" where
  "is_word U c =
    (if c < 128 then (48 \<le> c \<and> c \<le> 57) \<or> (65 \<le> c \<and> c \<le> 90) \<or> c = 95 \<or> (97 \<le> c \<and> c \<le> 122)
     else if is_cyrillic c then True
     else if tabulated c then False
     else ucd_alnum U c \<or> ucd_decimal U c \<noteq> None)"

definition lower_char :: "nat \<Rightarrow> nat" where
  "lower_char c =
    (if 65 \<le> c \<and> c \<le> 90 then c + 32
     else if 0x410 \<le> c \<and> c \<le> 0x42F then c + 0x20
     else if 0x400 \<le> c \<and> c \<le> 0x40F then c + 0x50
     else c)"

text \<open>\<open>s.lower()\<close>.\<close>

definition lower :: "ucd \<Rightarrow> ustr \<Rightarrow> ustr" where
  "lower U s = (if list_all tabulated s then map lower_char s else ucd_lower U s)"

text \<open>
  Whether the character \<open>c\<close> of the text matches the literal \<open>p\<close> of a pattern compiled
  with \<open>re.I\<close>.
\<close>

definition ci_match :: "ucd \<Rightarrow> nat \<Rightarrow> nat \<Rightarrow> bool" where
  "ci_match U p c = (if tabulated c then lower_char c = lower_char p else ucd_casematch U p c)"

text \<open>
  \<open>int(s)\<close> for a string of decimal digits, the only strings the agent converts (each is
  the group of a match of \<open>\d{m,n}\<close>).
\<close>

definition py_int :: "ucd \<Rightarrow> ustr \<Rightarrow> int" where
  "py_int U s = foldl (\<lambda>a c. 10 * a + (case digit_value U c of Some d \<Rightarrow> int d | None \<Rightarrow> 0)) 0 s"

text \<open>\<open>s.strip()\<close>: white space removed at both ends.\<close>

definition strip :: "ustr \<Rightarrow> ustr" where
  "strip s = rev (dropWhile is_space (rev (dropWhile is_space s)))"

section \<open>Regular expressions\<close>

text \<open>
  The fragment of \<open>re\<close> the agent's patterns are written in. An \<open>atom\<close> matches one
  character; \<open>Rep a lo hi\<close> is the greedy repetition \<open>a{lo,hi}\<close> (\<open>a*\<close> is
  \<open>Rep a 0 None\<close>), \<open>Opt\<close> the greedy \<open>(?:r)?\<close>, \<open>Grp\<close> the capturing group (each
  pattern has at most one), \<open>Bnd\<close> is \<open>\b\<close>.
\<close>

datatype atom = Chr nat | ChrI nat | OneOf "nat list" | OneOfI "nat list" | Space | Digit

datatype rx = Eps | Atom atom | Bnd | Cat rx rx | Alt rx rx | Opt rx
  | Rep atom nat "nat option" | Grp rx

fun atom_ok :: "ucd \<Rightarrow> atom \<Rightarrow> nat \<Rightarrow> bool" where
  "atom_ok U (Chr p) c = (c = p)"
| "atom_ok U (ChrI p) c = ci_match U p c"
| "atom_ok U (OneOf ps) c = (c \<in> set ps)"
| "atom_ok U (OneOfI ps) c = list_ex (\<lambda>p. ci_match U p c) ps"
| "atom_ok U Space c = is_space c"
| "atom_ok U Digit c = is_digit U c"

text \<open>
  \<open>\b\<close> holds between a word character and a non-word character, the two ends of the
  string counting as non-word. \<open>prev\<close> is the character before the position, \<open>s\<close> the
  text from the position on.
\<close>

definition word_before :: "ucd \<Rightarrow> nat option \<Rightarrow> bool" where
  "word_before U prev = (case prev of None \<Rightarrow> False | Some c \<Rightarrow> is_word U c)"

definition word_here :: "ucd \<Rightarrow> ustr \<Rightarrow> bool" where
  "word_here U s = (case s of [] \<Rightarrow> False | c # _ \<Rightarrow> is_word U c)"

definition at_boundary :: "ucd \<Rightarrow> nat option \<Rightarrow> ustr \<Rightarrow> bool" where
  "at_boundary U prev s = (word_before U prev \<noteq> word_here U s)"

definition prev_after :: "nat option \<Rightarrow> ustr \<Rightarrow> nat \<Rightarrow> nat option" where
  \<comment> \<open>the character before the position reached after \<open>k\<close> characters of \<open>s\<close>\<close>
  "prev_after prev s k = (case rev (take k s) of [] \<Rightarrow> prev | c # _ \<Rightarrow> Some c)"

text \<open>
  \<open>rxm U r prev s\<close>: the ways \<open>r\<close> matches at the start of \<open>s\<close>, in the order the
  backtracking matcher finds them; each is the number of characters consumed and the
  text of the group.
\<close>

fun rxm :: "ucd \<Rightarrow> rx \<Rightarrow> nat option \<Rightarrow> ustr \<Rightarrow> (nat \<times> ustr option) list" where
  "rxm U Eps prev s = [(0, None)]"
| "rxm U (Atom a) prev s = (case s of [] \<Rightarrow> [] | c # _ \<Rightarrow> if atom_ok U a c then [(1, None)] else [])"
| "rxm U Bnd prev s = (if at_boundary U prev s then [(0, None)] else [])"
| "rxm U (Cat r1 r2) prev s =
     concat (map (\<lambda>(k1, g1).
        map (\<lambda>(k2, g2). (k1 + k2, if g2 = None then g1 else g2))
          (rxm U r2 (prev_after prev s k1) (drop k1 s)))
      (rxm U r1 prev s))"
| "rxm U (Alt r1 r2) prev s = rxm U r1 prev s @ rxm U r2 prev s"
| "rxm U (Opt r) prev s = rxm U r prev s @ [(0, None)]"
| "rxm U (Rep a lo hi) prev s =
     (let n = length (takeWhile (atom_ok U a) s);
          m = (case hi of None \<Rightarrow> n | Some h \<Rightarrow> min n h)
      in map (\<lambda>k. (k, None)) (rev [lo..<Suc m]))"
| "rxm U (Grp r) prev s = map (\<lambda>(k, _). (k, Some (take k s))) (rxm U r prev s)"

text \<open>
  \<open>re.search\<close>: the first match at the leftmost position that has one, as (start,
  length, group).
\<close>

fun search_from :: "ucd \<Rightarrow> rx \<Rightarrow> nat option \<Rightarrow> ustr \<Rightarrow> nat \<Rightarrow> (nat \<times> nat \<times> ustr option) option" where
  "search_from U r prev [] pos =
     (case rxm U r prev [] of [] \<Rightarrow> None | m # _ \<Rightarrow> Some (pos, m))"
| "search_from U r prev (c # cs) pos =
     (case rxm U r prev (c # cs) of
        [] \<Rightarrow> search_from U r (Some c) cs (Suc pos)
      | m # _ \<Rightarrow> Some (pos, m))"

definition re_search :: "ucd \<Rightarrow> rx \<Rightarrow> ustr \<Rightarrow> (nat \<times> nat \<times> ustr option) option" where
  "re_search U r s = search_from U r None s 0"

text \<open>
  \<open>re.sub(r, repl, s)\<close>: every non-overlapping match, leftmost first, is replaced.
  \<open>skip\<close> counts the characters of the current match still to be passed over.
\<close>

fun sub_from :: "ucd \<Rightarrow> rx \<Rightarrow> ustr \<Rightarrow> nat option \<Rightarrow> ustr \<Rightarrow> nat \<Rightarrow> ustr" where
  "sub_from U r repl prev [] skip =
     (if skip = 0 \<and> rxm U r prev [] \<noteq> [] then repl else [])"
| "sub_from U r repl prev (c # cs) skip =
     (if 0 < skip then sub_from U r repl (Some c) cs (skip - 1)
      else (case rxm U r prev (c # cs) of
              [] \<Rightarrow> c # sub_from U r repl (Some c) cs 0
            | (k, _) # _ \<Rightarrow>
                if k = 0 then repl @ c # sub_from U r repl (Some c) cs 0
                else repl @ sub_from U r repl (Some c) cs (k - 1)))"

definition re_sub :: "ucd \<Rightarrow> rx \<Rightarrow> ustr \<Rightarrow> ustr \<Rightarrow> ustr" where
  "re_sub U r repl s = sub_from U r repl None s 0"

text \<open>A sequence of patterns, a choice between patterns, a literal string.\<close>

definition seq :: "rx list \<Rightarrow> rx" where
  "seq rs = foldr Cat rs Eps"

fun alts :: "rx list \<Rightarrow> rx" where
  "alts [] = Eps"
| "alts [r] = r"
| "alts (r # q # rs) = Alt r (alts (q # rs))"

definition lit :: "ustr \<Rightarrow> rx" where
  "lit s = seq (map (\<lambda>c. Atom (Chr c)) s)"

definition lit_i :: "ustr \<Rightarrow> rx" where
  "lit_i s = seq (map (\<lambda>c. Atom (ChrI c)) s)"

text \<open>The text of the group of a match (the group takes part in every match of the
  patterns below that have one).\<close>

definition group1 :: "nat \<times> nat \<times> ustr option \<Rightarrow> ustr" where
  "group1 m = (case snd (snd m) of None \<Rightarrow> [] | Some g \<Rightarrow> g)"

section \<open>Text utilities\<close>

text \<open>\<open>norm_text\<close>: \<open>re.sub(r"\s+", " ", s).strip()\<close>.\<close>

definition rx_spaces :: rx where
  "rx_spaces = Rep Space 1 None"

definition norm_text :: "ucd \<Rightarrow> ustr \<Rightarrow> ustr" where
  "norm_text U s = strip (re_sub U rx_spaces (asc '' '') s)"

section \<open>The interpreter of the user's goal\<close>

text \<open>The patterns of \<open>_extract_int\<close> and \<open>ai_interpret_user_goal\<close>, in source order.\<close>

definition rx_int :: rx where
  \<comment> \<open>\<open>\b(\d{1,2})\b\<close>\<close>
  "rx_int = seq [Bnd, Grp (Rep Digit 1 (Some 2)), Bnd]"

definition rx_dash :: rx where
  \<comment> \<open>\<open>[-\<dots>]\<close>: the hyphen or the en dash\<close>
  "rx_dash = Atom (OneOf [0x2D, 0x2013])"

definition rx_1_3 :: rx where
  \<comment> \<open>\<open>\b1\s*[-\<dots>]\s*3\b\<close>\<close>
  "rx_1_3 = seq [Bnd, lit (asc ''1''), Rep Space 0 None, rx_dash, Rep Space 0 None, lit (asc ''3''), Bnd]"

definition rx_3_6 :: rx where
  \<comment> \<open>\<open>\b3\s*[-\<dots>]\s*6\b\<close>\<close>
  "rx_3_6 = seq [Bnd, lit (asc ''3''), Rep Space 0 None, rx_dash, Rep Space 0 None, lit (asc ''6''), Bnd]"

definition rx_6_plus :: rx where
  \<comment> \<open>\<open>\b6\+\b|\bbolee\s*6\b\<close>\<close>
  "rx_6_plus = Alt (seq [Bnd, lit (asc ''6+''), Bnd])
                   (seq [Bnd, lit (cyr ''bolee''), Rep Space 0 None, lit (asc ''6''), Bnd])"

definition rx_salary_k :: rx where
  \<comment> \<open>\<open>(?:ot\s*)?(\d{2,3})\s*(?:k|k)\b\<close>, the first \<open>k\<close> Cyrillic, the second Latin\<close>
  "rx_salary_k = seq [Opt (seq [lit (cyr ''ot''), Rep Space 0 None]), Grp (Rep Digit 2 (Some 3)),
                      Rep Space 0 None, Alt (lit (cyr ''k'')) (lit (asc ''k'')), Bnd]"

definition rx_salary_plain :: rx where
  \<comment> \<open>\<open>(?:ot\s*)?(\d{5,6})\b\<close>\<close>
  "rx_salary_plain = seq [Opt (seq [lit (cyr ''ot''), Rep Space 0 None]), Grp (Rep Digit 5 (Some 6)), Bnd]"

definition rx_filler :: rx where
  \<comment> \<open>\<open>\b(otkroy|otkrytx|hh|hh\.ru|hh|hh\.ru|naydi|nayti|pokaji|vakansi[ai]|s filxtrami|po filxtram)\b\<close>
      under \<open>re.I\<close>; the first \<open>hh\<close>, \<open>hh\.ru\<close> are Latin, the second Cyrillic\<close>
  "rx_filler = seq [Bnd,
     Grp (alts [lit_i (cyr ''otkroy''), lit_i (cyr ''otkrYtX''), lit_i (asc ''hh''),
                seq [lit_i (asc ''hh''), lit (asc ''.''), lit_i (asc ''ru'')],
                lit_i (cyr ''hh''),
                seq [lit_i (cyr ''hh''), lit (asc ''.''), lit_i (cyr ''ru'')],
                lit_i (cyr ''naydi''), lit_i (cyr ''nayti''), lit_i (cyr ''pokaji''),
                seq [lit_i (cyr ''vakansi''), Atom (OneOfI (cyr ''Ai''))],
                seq [lit_i (cyr ''s''), lit (asc '' ''), lit_i (cyr ''filXtrami'')],
                seq [lit_i (cyr ''po''), lit (asc '' ''), lit_i (cyr ''filXtram'')]]),
     Bnd]"

definition extract_int :: "ucd \<Rightarrow> ustr \<Rightarrow> int option" where
  "extract_int U s =
    (case re_search U rx_int s of
       None \<Rightarrow> None
     | Some m \<Rightarrow> Some (py_int U (group1 m)))"

record goal =
  query :: ustr
  want_n :: "int option"
  area :: "int option"
  experience :: "ustr option"
  remote :: bool
  salary :: "int option"
  only_with_salary :: bool

text \<open>
  The body of \<open>ai_interpret_user_goal\<close>, one definition for each field it computes from
  the normalised text \<open>t\<close> and its lower-case form \<open>tlow\<close> (\<open>tl\<close> in the source), in source order.
\<close>

definition detect_area :: "ustr \<Rightarrow> int option" where
  "detect_area tlow =
    (if contains (cyr ''mosk'') tlow then Some 1
     else if contains (cyr ''piter'') tlow \<or> contains (cyr ''spb'') tlow
             \<or> contains (cyr ''sankt-peter'') tlow then Some 2
     else if contains (cyr ''rossi'') tlow \<or> contains (cyr ''rf'') tlow then Some 113
     else None)"

definition experience_keyword :: "ustr \<Rightarrow> ustr option" where
  "experience_keyword tlow =
    (if list_ex (\<lambda>x. contains x tlow)
          [cyr ''bez opYta'', cyr ''stajer'', cyr ''stajOr'', asc ''intern'', asc ''junior'',
           cyr ''djun'']
     then Some (asc ''noExperience'')
     else if list_ex (\<lambda>x. contains x tlow) [asc ''middle'', cyr ''midl'', cyr ''mid'']
     then Some (asc ''between1And3'')
     else if list_ex (\<lambda>x. contains x tlow)
          [asc ''senior'', cyr ''senXor'', cyr ''sinXor'', asc ''lead'', cyr ''lid'']
     then Some (asc ''between3And6'')
     else None)"

definition detect_experience :: "ucd \<Rightarrow> ustr \<Rightarrow> ustr option" where
  "detect_experience U tlow =
    (let e0 = experience_keyword tlow;
         e1 = (if re_search U rx_1_3 tlow \<noteq> None then Some (asc ''between1And3'') else e0);
         e2 = (if re_search U rx_3_6 tlow \<noteq> None then Some (asc ''between3And6'') else e1)
     in if re_search U rx_6_plus tlow \<noteq> None then Some (asc ''moreThan6'') else e2)"

definition detect_remote :: "ustr \<Rightarrow> bool" where
  "detect_remote tlow =
    list_ex (\<lambda>x. contains x tlow) [cyr ''udalen'', cyr ''udalOn'', asc ''remote'', cyr ''iz doma'']"

definition detect_salary :: "ucd \<Rightarrow> ustr \<Rightarrow> int option" where
  "detect_salary U tlow =
    (case re_search U rx_salary_k tlow of
       Some m \<Rightarrow> Some (py_int U (group1 m) * 1000)
     | None \<Rightarrow>
        (case re_search U rx_salary_plain tlow of
           Some m2 \<Rightarrow> Some (py_int U (group1 m2))
         | None \<Rightarrow> None))"

definition salary_synonyms :: "ustr list" where
  "salary_synonyms =
    [cyr ''tolXko s zp'', cyr ''tolXko s zarplat'', cyr ''s zarplatoy'', asc ''only_with_salary'']"

definition detect_only_with_salary :: "int option \<Rightarrow> ustr \<Rightarrow> bool" where
  "detect_only_with_salary sal tlow = (sal \<noteq> None \<and> list_ex (\<lambda>x. contains x tlow) salary_synonyms)"

definition role_bits :: "ustr \<Rightarrow> ustr list" where
  "role_bits tlow =
     (if contains (asc ''python'') tlow \<or> contains (cyr ''piton'') tlow then [asc ''Python''] else [])
     @ (if contains (asc ''backend'') tlow \<or> contains (cyr ''bEkend'') tlow
           \<or> contains (cyr ''bekend'') tlow then [asc ''backend''] else [])
     @ (if contains (asc ''django'') tlow then [asc ''Django''] else [])
     @ (if contains (asc ''fastapi'') tlow then [asc ''FastAPI''] else [])
     @ (if contains (asc ''asyncio'') tlow then [asc ''asyncio''] else [])"

definition default_query :: ustr where
  "default_query = asc ''Python'' @ cyr '' razrabotCik''"

definition build_query :: "ucd \<Rightarrow> ustr \<Rightarrow> ustr \<Rightarrow> ustr" where
  "build_query U t tlow =
    (let q0 = (if role_bits tlow \<noteq> []
               then join (asc '' '') (fromkeys (role_bits tlow)) @ cyr '' razrabotCik''
               else t);
         q1 = norm_text U (re_sub U rx_filler (asc '' '') q0)
     in if q1 = [] then default_query else q1)"

definition ai_interpret_user_goal :: "ucd \<Rightarrow> ustr \<Rightarrow> goal" where
  "ai_interpret_user_goal U user_text =
    (let t = norm_text U user_text;
         tlow = lower U t;
         sal = detect_salary U tlow
     in \<lparr>query = build_query U t tlow,
         want_n = extract_int U tlow,
         area = detect_area tlow,
         experience = detect_experience U tlow,
         remote = detect_remote tlow,
         salary = sal,
         only_with_salary = detect_only_with_salary sal tlow\<rparr>)"

section \<open>Session launcher\<close>

text \<open>
  \<open>launch_context_robust\<close> walks a fixed list of attempts. The body of the \<open>try\<close> of
  one attempt prepares the profile directory (\<open>ensure_dir_clean\<close> for a fresh profile,
  \<open>os.makedirs\<close> otherwise) and then calls \<open>_launch_once\<close>; either may raise. The
  outcomes are given by the environment \<open>env\<close>: \<open>'e\<close> are the exceptions, \<open>'c\<close> the
  browser contexts. The loop also returns the attempts it made, in order.
\<close>

datatype profile = PROFILE_DIR | FALLBACK_PROFILE_DIR

record launch_attempt =
  label :: string
  profile_dir :: profile
  use_yandex :: bool
  fresh :: bool

record ('e, 'c) launch_env =
  prepare_dir :: "profile \<Rightarrow> bool \<Rightarrow> 'e option"
  launch_once :: "profile \<Rightarrow> bool \<Rightarrow> 'e + 'c"

datatype 'e launch_error = RuntimeError "'e option"

definition attempts :: "launch_attempt list" where
  "attempts =
    [\<lparr>label = ''Chromium main profile'', profile_dir = PROFILE_DIR, use_yandex = False, fresh = False\<rparr>,
     \<lparr>label = ''Chromium fresh fallback'', profile_dir = FALLBACK_PROFILE_DIR, use_yandex = False, fresh = True\<rparr>,
     \<lparr>label = ''Yandex fresh fallback'', profile_dir = FALLBACK_PROFILE_DIR, use_yandex = True, fresh = True\<rparr>]"

definition try_attempt :: "('e, 'c) launch_env \<Rightarrow> launch_attempt \<Rightarrow> 'e + 'c" where
  "try_attempt env a =
    (case prepare_dir env (profile_dir a) (fresh a) of
       Some e \<Rightarrow> Inl e
     | None \<Rightarrow> launch_once env (profile_dir a) (use_yandex a))"

fun launch_loop :: "('e, 'c) launch_env \<Rightarrow> launch_attempt list \<Rightarrow> 'e option \<Rightarrow> launch_attempt list
    \<Rightarrow> ('e launch_error + 'c) \<times> launch_attempt list" where
  "launch_loop env [] last_exc tried = (Inl (RuntimeError last_exc), tried)"
| "launch_loop env (a # rest) last_exc tried =
     (case try_attempt env a of
        Inr ctx \<Rightarrow> (Inr ctx, tried @ [a])
      | Inl e \<Rightarrow> launch_loop env rest (Some e) (tried @ [a]))"

definition launch_context_robust :: "('e, 'c) launch_env \<Rightarrow> ('e launch_error + 'c) \<times> launch_attempt list" where
  "launch_context_robust env = launch_loop env attempts None []"

section \<open>Collecting the vacancies of a search page\<close>




record vacancy =
  title :: ustr
  url :: ustr
  snippet :: ustr







section \<open>Responding to a vacancy\<close>

text \<open>
  The page is a state \<open>'s\<close> that every interaction may change; \<open>ops\<close> gives the outcome
  of each interaction. \<open>op_goto\<close> and \<open>op_settle\<close> (\<open>wait_settle\<close> followed by
  \<open>ensure_logged_in_hint\<close>) may raise an exception \<open>'e\<close>, which \<open>respond_to_vacancy\<close>
  does not catch; a click or a fill that raises is caught by \<open>safe_click\<close> and
  \<open>safe_fill\<close>, so its outcome is a boolean.
\<close>

record ('s, 'e) page_ops =
  op_goto :: "'s \<Rightarrow> ustr \<Rightarrow> 'e + 's"
  op_settle :: "'s \<Rightarrow> 'e + 's"
  op_click :: "'s \<Rightarrow> ustr \<Rightarrow> bool \<times> 's"
  op_fill :: "'s \<Rightarrow> ustr \<Rightarrow> ustr \<Rightarrow> bool \<times> 's"

fun safe_click :: "('s, 'e) page_ops \<Rightarrow> 's \<Rightarrow> ustr list \<Rightarrow> bool \<times> 's" where
  "safe_click ops s [] = (False, s)"
| "safe_click ops s (sel # sels) =
     (case op_click ops s sel of
        (True, s') \<Rightarrow> (True, s')
      | (False, s') \<Rightarrow> safe_click ops s' sels)"

fun safe_fill :: "('s, 'e) page_ops \<Rightarrow> 's \<Rightarrow> ustr list \<Rightarrow> ustr \<Rightarrow> bool \<times> 's" where
  "safe_fill ops s [] v = (False, s)"
| "safe_fill ops s (sel # sels) v =
     (case op_click ops s sel of
        (False, s') \<Rightarrow> safe_fill ops s' sels v
      | (True, s') \<Rightarrow>
         (case op_fill ops s' sel v of
            (True, s'') \<Rightarrow> (True, s'')
          | (False, s'') \<Rightarrow> safe_fill ops s'' sels v))"

definition open_vacancy :: "('s, 'e) page_ops \<Rightarrow> 's \<Rightarrow> vacancy \<Rightarrow> 'e + 's" where
  "open_vacancy ops s v =
    (case op_goto ops s (url v) of
       Inl e \<Rightarrow> Inl e
     | Inr s' \<Rightarrow> op_settle ops s')"

definition respond_selectors :: "ustr list" where
  \<comment> \<open>\<open>text=Otkliknutxsa\<close>, \<open>button:has-text('Otkliknutxsa')\<close>, \<open>[data-qa*='vacancy-response']\<close>\<close>
  "respond_selectors =
    [asc ''text='' @ [0x41E] @ cyr ''tkliknutXsA'',
     asc ''button:has-text('' @ [0x27, 0x41E] @ cyr ''tkliknutXsA'' @ [0x27] @ asc '')'',
     asc ''[data-qa*='' @ [0x27] @ asc ''vacancy-response'' @ [0x27] @ asc '']'']"

definition letter_selectors :: "ustr list" where
  "letter_selectors =
    [asc ''[data-qa*='' @ [0x27] @ asc ''vacancy-response-letter'' @ [0x27] @ asc ''] textarea'',
     asc ''[data-qa*='' @ [0x27] @ asc ''cover-letter'' @ [0x27] @ asc ''] textarea'',
     asc ''textarea'']"

definition editable_selector :: ustr where
  "editable_selector = asc ''[contenteditable='' @ [0x27] @ asc ''true'' @ [0x27] @ asc '']''"

definition send_selectors :: "ustr list" where
  \<comment> \<open>\<open>button:has-text('Otpravitx')\<close>, \<open>text=Otpravitx\<close>\<close>
  "send_selectors =
    [asc ''button:has-text('' @ [0x27, 0x41E] @ cyr ''tpravitX'' @ [0x27] @ asc '')'',
     asc ''text='' @ [0x41E] @ cyr ''tpravitX'']"

text \<open>The fallback of the letter: click, then fill, the generic editable element.\<close>

definition fill_editable :: "('s, 'e) page_ops \<Rightarrow> 's \<Rightarrow> ustr \<Rightarrow> bool \<times> 's" where
  "fill_editable ops s letter =
    (case op_click ops s editable_selector of
       (False, s') \<Rightarrow> (False, s')
     | (True, s') \<Rightarrow> op_fill ops s' editable_selector letter)"

definition respond_to_vacancy :: "('s, 'e) page_ops \<Rightarrow> 's \<Rightarrow> vacancy \<Rightarrow> ustr \<Rightarrow> bool \<Rightarrow> 'e + bool \<times> 's" where
  "respond_to_vacancy ops s v letter submit =
    (case open_vacancy ops s v of
       Inl e \<Rightarrow> Inl e
     | Inr s1 \<Rightarrow>
        (case safe_click ops s1 respond_selectors of
           (False, s2) \<Rightarrow> Inr (False, s2)
         | (True, s2) \<Rightarrow>
            (case op_settle ops s2 of
               Inl e \<Rightarrow> Inl e
             | Inr s3 \<Rightarrow>
                (case safe_fill ops s3 letter_selectors letter of
                   (filled, s4) \<Rightarrow>
                    (case (if filled then (True, s4) else fill_editable ops s4 letter) of
                       (False, s5) \<Rightarrow> Inr (True, s5)
                     | (True, s5) \<Rightarrow>
                        if \<not> submit then Inr (True, s5)
                        else Inr (safe_click ops s5 send_selectors))))))"

section \<open>Auxiliary notions for the proofs\<close>

definition shift :: "nat \<Rightarrow> nat \<times> ustr option \<Rightarrow> nat \<times> ustr option" where
  "shift n m = (n + fst m, snd m)"

definition merge :: "nat \<times> ustr option \<Rightarrow> nat \<times> ustr option \<Rightarrow> nat \<times> ustr option" where
  "merge m1 m2 = (fst m1 + fst m2, if snd m2 = None then snd m1 else snd m2)"

definition cont :: "ucd \<Rightarrow> rx \<Rightarrow> nat option \<Rightarrow> ustr \<Rightarrow> nat \<times> ustr option \<Rightarrow> (nat \<times> ustr option) list" where
  "cont U r prev s m = map (merge m) (rxm U r (prev_after prev s (fst m)) (drop (fst m) s))"

text \<open>
  A table of the interpreter that knows no character beyond the tabulated ones; the
  concrete inputs below stay within the tabulated blocks.
\<close>

definition U0 :: ucd where
  "U0 = \<lparr>ucd_alnum = (\<lambda>c. False), ucd_decimal = (\<lambda>c. None), ucd_lower = (\<lambda>s. s),
         ucd_casematch = (\<lambda>p c. False)\<rparr>"

definition env_main_locked :: "(string, nat) launch_env" where
  \<comment> \<open>the main profile is locked; the fallback profile launches context 7\<close>
  "env_main_locked =
     \<lparr>prepare_dir = (\<lambda>p f. None),
      launch_once = (\<lambda>p y. if p = PROFILE_DIR then Inl ''profile is locked'' else Inr 7)\<rparr>"

definition ops_no_letter_field :: "(nat, string) page_ops" where
  \<comment> \<open>every click on a respond control works, no letter field can be clicked; the state
      counts the interactions\<close>
  "ops_no_letter_field =
     \<lparr>op_goto = (\<lambda>s u. Inr (Suc s)), op_settle = (\<lambda>s. Inr (Suc s)),
      op_click = (\<lambda>s sel. (sel \<in> set respond_selectors, Suc s)),
      op_fill = (\<lambda>s sel v. (False, Suc s))\<rparr>"

definition ops_no_respond_button :: "(nat, string) page_ops" where
  "ops_no_respond_button =
     \<lparr>op_goto = (\<lambda>s u. Inr (Suc s)), op_settle = (\<lambda>s. Inr (Suc s)),
      op_click = (\<lambda>s sel. (False, Suc s)),
      op_fill = (\<lambda>s sel v. (False, Suc s))\<rparr>"

definition some_vacancy :: vacancy where
  "some_vacancy = \<lparr>title = asc ''Python developer'', url = asc ''https://hh.ru/vacancy/1'', snippet = []\<rparr>"

definition django_request :: ustr where
  \<comment> \<open>\<open>naydi 5 vakansiy Django v SPb, junior, udalyonka\<close>, in Cyrillic but for \<open>Django\<close>
      and \<open>junior\<close>\<close>
  "django_request = cyr ''naydi 5 vakansiy '' @ asc ''Django '' @ cyr ''v '' @ [0x421, 0x41F]
      @ cyr ''b, '' @ asc ''junior, '' @ cyr ''udalOnka''"

definition django_request_lower :: ustr where
  "django_request_lower = cyr ''naydi 5 vakansiy '' @ asc ''django '' @ cyr ''v spb, ''
      @ asc ''junior, '' @ cyr ''udalOnka''"

definition role_choice :: "bool \<Rightarrow> bool \<Rightarrow> bool \<Rightarrow> bool \<Rightarrow> bool \<Rightarrow> ustr list" where
  \<comment> \<open>the value of \<open>role_bits\<close> when the five tests of the source come out as given\<close>
  "role_choice py be dj fa asy =
     (if py then [asc ''Python''] else []) @ (if be then [asc ''backend''] else [])
     @ (if dj then [asc ''Django''] else []) @ (if fa then [asc ''FastAPI''] else [])
     @ (if asy then [asc ''asyncio''] else [])"

definition filler_request :: ustr where
  \<comment> \<open>\<open>Otkroy hh.ru, naydi vakansii\<close>\<close>
  "filler_request = [0x41E] @ cyr ''tkroy '' @ asc ''hh.ru, '' @ cyr ''naydi  vakansii''"

definition only_salary_request :: ustr where
  \<comment> \<open>\<open>tolxko s zarplatoy\<close>\<close>
  "only_salary_request = cyr ''tolXko s zarplatoy''"

definition salary_required_request :: ustr where
  \<comment> \<open>\<open>python ot 200k, tolxko s zarplatoy\<close>\<close>
  "salary_required_request = asc ''python '' @ cyr ''ot 200k, tolXko s zarplatoy''"

text \<open>The matches of a pattern at position \<open>i\<close> of a text.\<close>

definition match_at :: "ucd \<Rightarrow> rx \<Rightarrow> ustr \<Rightarrow> nat \<Rightarrow> (nat \<times> ustr option) list" where
  "match_at U r s i = rxm U r (prev_after None s i) (drop i s)"

definition range_request :: ustr where
  \<comment> \<open>\<open>opyt 1-3 goda\<close>\<close>
  "range_request = cyr ''opYt 1-3 goda''"

definition two_ranges_request :: ustr where
  \<comment> \<open>\<open>opyt 1-3 ili 3-6 let\<close>\<close>
  "two_ranges_request = cyr ''opYt 1-3 ili 3-6 let''"

definition senior_range_request :: ustr where
  \<comment> \<open>\<open>senior, opyt 1 - 3 goda\<close>, written with an en dash\<close>
  "senior_range_request = asc ''senior, '' @ cyr ''opYt 1 '' @ [0x2013] @ cyr '' 3 goda''"

definition rx_thousands :: rx where
  \<comment> \<open>\<open>rx_salary_k\<close> without its optional \<open>ot\<close>: \<open>(\d{2,3})\s*(?:k|k)\b\<close>\<close>
  "rx_thousands = seq [Grp (Rep Digit 2 (Some 3)), Rep Space 0 None,
                       Alt (lit (cyr ''k'')) (lit (asc ''k'')), Bnd]"

definition salary_range_request :: ustr where
  \<comment> \<open>\<open>ot 100k do 200k\<close>\<close>
  "salary_range_request = cyr ''ot 100k do 200k''"

definition salary_200_request :: ustr where
  \<comment> \<open>\<open>Naydi 5 vakansiy Python ot 200k\<close>, in Cyrillic but for \<open>Python\<close>\<close>
  "salary_200_request = [0x41D] @ cyr ''aydi 5 vakansiy '' @ asc ''Python '' @ cyr ''ot 200k''"







section \<open>Matching, step by step\<close>

text \<open>
  How \<open>rxm\<close> runs through a sequence, one equation for each shape of its first
  pattern. They are consequences of the definition and evaluate faster than it does.
\<close>

lemma rxm_Cat: "rxm U (Cat a r) prev s = concat (map (cont U r prev s) (rxm U a prev s))"
  by (simp add: cont_def[abs_def] merge_def[abs_def] case_prod_unfold)

lemma prev_after_0 [simp]: "prev_after prev s 0 = prev"
  by (simp add: prev_after_def)

lemma case_append_head:
  "(case xs @ ys of [] \<Rightarrow> p | c # _ \<Rightarrow> Some c) = (case xs of [] \<Rightarrow> (case ys of [] \<Rightarrow> p | c # _ \<Rightarrow> Some c) | c # _ \<Rightarrow> Some c)"
  by (cases xs) simp_all

lemma prev_after_add: "prev_after (prev_after prev s k1) (drop k1 s) k2 = prev_after prev s (k1 + k2)"
  unfolding prev_after_def take_add rev_append case_append_head ..

lemma merge_assoc: "merge (merge m1 m2) m3 = merge m1 (merge m2 m3)"
  by (cases "snd m3"; cases "snd m2") (simp_all add: merge_def)

lemma cont_merge:
  "cont U r prev s (merge m1 m2) = map (merge m1) (cont U r (prev_after prev s (fst m1)) (drop (fst m1) s) m2)"
proof -
  have "fst (merge m1 m2) = fst m1 + fst m2" by (simp add: merge_def)
  then show ?thesis
    by (simp add: cont_def merge_assoc[abs_def] prev_after_add comp_def add.commute)
qed

lemma concat_cont_cont:
  "concat (map (cont U r prev s) (cont U b prev s m)) = cont U (Cat b r) prev s m"
  unfolding cont_def[of U "Cat b r"] rxm_Cat
  unfolding cont_def[of U b]
  by (simp add: map_concat comp_def cont_merge)

lemma concat_cont_list:
  "concat (map (cont U r prev s) (concat (map (cont U b prev s) xs)))
     = concat (map (cont U (Cat b r) prev s) xs)"
  by (induction xs) (simp_all add: concat_cont_cont)

lemma rxm_Cat_Cat: "rxm U (Cat (Cat a b) r) prev s = rxm U (Cat a (Cat b r)) prev s"
  unfolding rxm_Cat[of U "Cat a b"] rxm_Cat[of U a] rxm_Cat[of U a "Cat b r"]
  by (rule concat_cont_list)

lemma rxm_Cat_Eps: "rxm U (Cat Eps r) prev s = rxm U r prev s"
  by simp

lemma rxm_Cat_Bnd: "rxm U (Cat Bnd r) prev s = (if at_boundary U prev s then rxm U r prev s else [])"
  by simp

lemma rxm_Cat_Atom_Nil: "rxm U (Cat (Atom a) r) prev [] = []"
  by simp

lemma rxm_Cat_Atom_Cons: "rxm U (Cat (Atom a) r) prev (c # cs) =
   (if atom_ok U a c then map (shift 1) (rxm U r (Some c) cs) else [])"
  by (auto simp add: prev_after_def shift_def)

lemma rxm_Cat_Alt: "rxm U (Cat (Alt a b) r) prev s = rxm U (Cat a r) prev s @ rxm U (Cat b r) prev s"
  by simp

lemma rxm_Cat_Opt: "rxm U (Cat (Opt a) r) prev s = rxm U (Cat a r) prev s @ rxm U r prev s"
  by simp

lemma rxm_Cat_Rep:
  "rxm U (Cat (Rep a lo hi) r) prev s = concat (map (cont U r prev s) (rxm U (Rep a lo hi) prev s))"
  by (rule rxm_Cat)

lemma rxm_Cat_Grp:
  "rxm U (Cat (Grp a) r) prev s = concat (map (cont U r prev s) (rxm U (Grp a) prev s))"
  by (rule rxm_Cat)

lemmas rxm_eval = rxm_Cat_Eps rxm_Cat_Bnd rxm_Cat_Atom_Nil rxm_Cat_Atom_Cons rxm_Cat_Alt rxm_Cat_Opt
  rxm_Cat_Cat rxm_Cat_Rep rxm_Cat_Grp cont_def merge_def shift_def

section \<open>Session launcher: proofs\<close>

lemma launch_loop_all_fail:
  "\<forall>a\<in>set xs. isl (try_attempt env a) \<Longrightarrow>
   launch_loop env xs l tried =
     (Inl (RuntimeError (if xs = [] then l else Some (projl (try_attempt env (last xs))))), tried @ xs)"
proof (induction xs arbitrary: l tried)
  case Nil
  show ?case by simp
next
  case (Cons a xs)
  then obtain e where e: "try_attempt env a = Inl e"
    by (cases "try_attempt env a") auto
  from Cons.prems have "\<forall>b\<in>set xs. isl (try_attempt env b)" by simp
  from Cons.IH[OF this, of "Some e" "tried @ [a]"] show ?case
    by (simp add: e)
qed

lemma launch_loop_first_success:
  "\<forall>b\<in>set pre. isl (try_attempt env b) \<Longrightarrow> try_attempt env a = Inr c \<Longrightarrow>
   launch_loop env (pre @ a # post) l tried = (Inr c, tried @ pre @ [a])"
proof (induction pre arbitrary: l tried)
  case Nil
  then show ?case by simp
next
  case (Cons b pre)
  then obtain e where e: "try_attempt env b = Inl e"
    by (cases "try_attempt env b") auto
  from Cons.prems have "\<forall>x\<in>set pre. isl (try_attempt env x)" by simp
  from Cons.IH[OF this Cons.prems(2), of "Some e" "tried @ [b]"] show ?case
    by (simp add: e)
qed

text \<open>
  Claim C1. The attempts are the main-profile Chromium, the fresh fallback-profile
  Chromium and the fresh fallback-profile Yandex browser, in this order. The launcher
  returns the context of the first attempt that succeeds, having made exactly the attempts
  up to it and none after it. When every attempt fails it raises the error that carries
  the exception of the last attempt, and it raises only then.
\<close>

theorem launch_context_robust_first_success:
  "map (\<lambda>a. (profile_dir a, use_yandex a, fresh a)) attempts =
     [(PROFILE_DIR, False, False), (FALLBACK_PROFILE_DIR, False, True), (FALLBACK_PROFILE_DIR, True, True)]
   \<and> (\<forall>pre a post c. attempts = pre @ a # post \<and> (\<forall>b\<in>set pre. isl (try_attempt env b))
          \<and> try_attempt env a = Inr c
        \<longrightarrow> launch_context_robust env = (Inr c, pre @ [a]))
   \<and> ((\<forall>a\<in>set attempts. isl (try_attempt env a))
        \<longrightarrow> launch_context_robust env =
              (Inl (RuntimeError (Some (projl (try_attempt env (last attempts))))), attempts))
   \<and> ((\<exists>err. fst (launch_context_robust env) = Inl err) \<longleftrightarrow> (\<forall>a\<in>set attempts. isl (try_attempt env a)))"
proof (intro conjI allI impI)
  show "map (\<lambda>a. (profile_dir a, use_yandex a, fresh a)) attempts =
     [(PROFILE_DIR, False, False), (FALLBACK_PROFILE_DIR, False, True), (FALLBACK_PROFILE_DIR, True, True)]"
    by (simp add: attempts_def)
next
  fix pre a post c
  assume "attempts = pre @ a # post \<and> (\<forall>b\<in>set pre. isl (try_attempt env b)) \<and> try_attempt env a = Inr c"
  then show "launch_context_robust env = (Inr c, pre @ [a])"
    unfolding launch_context_robust_def
    using launch_loop_first_success[of pre env a c post None "[]"] by simp
next
  assume "\<forall>a\<in>set attempts. isl (try_attempt env a)"
  from launch_loop_all_fail[OF this, of None "[]"]
  show "launch_context_robust env =
          (Inl (RuntimeError (Some (projl (try_attempt env (last attempts))))), attempts)"
    unfolding launch_context_robust_def by (simp add: attempts_def)
next
  show "(\<exists>err. fst (launch_context_robust env) = Inl err) \<longleftrightarrow> (\<forall>a\<in>set attempts. isl (try_attempt env a))"
  proof
    assume fails: "\<exists>err. fst (launch_context_robust env) = Inl err"
    show "\<forall>a\<in>set attempts. isl (try_attempt env a)"
    proof (rule ccontr)
      assume "\<not> (\<forall>a\<in>set attempts. isl (try_attempt env a))"
      then have "\<exists>a\<in>set attempts. \<not> isl (try_attempt env a)" by simp
      then obtain pre a post where split: "attempts = pre @ a # post"
        and a: "\<not> isl (try_attempt env a)" and pre: "\<forall>b\<in>set pre. \<not> \<not> isl (try_attempt env b)"
        using split_list_first_prop[of attempts "\<lambda>a. \<not> isl (try_attempt env a)"] by blast
      from a obtain c where "try_attempt env a = Inr c" by (cases "try_attempt env a") auto
      with pre have "launch_loop env (pre @ a # post) None [] = (Inr c, [] @ pre @ [a])"
        by (intro launch_loop_first_success) auto
      with fails split show False by (simp add: launch_context_robust_def)
    qed
  next
    assume "\<forall>a\<in>set attempts. isl (try_attempt env a)"
    from launch_loop_all_fail[OF this, of None "[]"]
    show "\<exists>err. fst (launch_context_robust env) = Inl err"
      by (simp add: launch_context_robust_def)
  qed
qed

theorem launch_context_robust_first_success_witness:
  "launch_context_robust env_main_locked = (Inr 7, take 2 attempts)
   \<and> try_attempt env_main_locked (attempts ! 0) = Inl ''profile is locked''
   \<and> try_attempt env_main_locked (attempts ! 1) = Inr 7"
proof -
  have t0: "try_attempt env_main_locked (attempts ! 0) = Inl ''profile is locked''"
    by (simp add: try_attempt_def env_main_locked_def attempts_def)
  have t1: "try_attempt env_main_locked (attempts ! 1) = Inr 7"
    by (simp add: try_attempt_def env_main_locked_def attempts_def)
  have sp: "attempts = [attempts ! 0] @ (attempts ! 1) # [attempts ! 2]"
    by (simp add: attempts_def)
  have pre: "\<forall>b\<in>set [attempts ! 0]. isl (try_attempt env_main_locked b)"
    using t0 by simp
  from launch_context_robust_first_success[of env_main_locked] sp pre t1
  have "launch_context_robust env_main_locked = (Inr 7, [attempts ! 0] @ [attempts ! 1])"
    by blast
  then show ?thesis using t0 t1 by (simp add: attempts_def)
qed

section \<open>Responding to a vacancy: proofs\<close>

text \<open>
  Claim C9. When the respond control was activated and every way of filling the letter
  failed, the generic editable element included, \<open>respond_to_vacancy\<close> returns \<open>True\<close>,
  whatever \<open>submit\<close> is. It returns \<open>False\<close> only when no respond control could be
  activated, or when \<open>submit\<close> is set and no control that sends the response could be
  activated.
\<close>

theorem respond_to_vacancy_unfilled_is_true:
  "(\<forall>s1 s2 s3 s4 s5.
      open_vacancy ops s v = Inr s1 \<and> safe_click ops s1 respond_selectors = (True, s2)
      \<and> op_settle ops s2 = Inr s3 \<and> safe_fill ops s3 letter_selectors letter = (False, s4)
      \<and> fill_editable ops s4 letter = (False, s5)
      \<longrightarrow> respond_to_vacancy ops s v letter submit = Inr (True, s5))
   \<and> (\<forall>sf. respond_to_vacancy ops s v letter submit = Inr (False, sf)
      \<longrightarrow> (\<exists>s1. open_vacancy ops s v = Inr s1
             \<and> (safe_click ops s1 respond_selectors = (False, sf)
                 \<or> (submit \<and> (\<exists>s5. safe_click ops s5 send_selectors = (False, sf))))))"
proof (intro conjI allI impI)
  fix s1 s2 s3 s4 s5
  assume "open_vacancy ops s v = Inr s1 \<and> safe_click ops s1 respond_selectors = (True, s2)
      \<and> op_settle ops s2 = Inr s3 \<and> safe_fill ops s3 letter_selectors letter = (False, s4)
      \<and> fill_editable ops s4 letter = (False, s5)"
  then show "respond_to_vacancy ops s v letter submit = Inr (True, s5)"
    by (simp add: respond_to_vacancy_def)
next
  fix sf
  assume r: "respond_to_vacancy ops s v letter submit = Inr (False, sf)"
  then obtain s1 where o: "open_vacancy ops s v = Inr s1"
    by (cases "open_vacancy ops s v") (simp_all add: respond_to_vacancy_def)
  obtain clicked s2 where c: "safe_click ops s1 respond_selectors = (clicked, s2)"
    by (cases "safe_click ops s1 respond_selectors")
  show "\<exists>s1. open_vacancy ops s v = Inr s1
             \<and> (safe_click ops s1 respond_selectors = (False, sf)
                 \<or> (submit \<and> (\<exists>s5. safe_click ops s5 send_selectors = (False, sf))))"
  proof (cases clicked)
    case False
    with r o c have "sf = s2" by (simp add: respond_to_vacancy_def)
    with False o c show ?thesis by auto
  next
    case True
    with r o c obtain s3 where st: "op_settle ops s2 = Inr s3"
      by (cases "op_settle ops s2") (simp_all add: respond_to_vacancy_def)
    obtain filled s4 where f: "safe_fill ops s3 letter_selectors letter = (filled, s4)"
      by (cases "safe_fill ops s3 letter_selectors letter")
    obtain filled' s5 where f': "(if filled then (True, s4) else fill_editable ops s4 letter) = (filled', s5)"
      by (cases "if filled then (True, s4) else fill_editable ops s4 letter")
    from r o c True st f f' have "filled' \<and> submit \<and> safe_click ops s5 send_selectors = (False, sf)"
      by (cases filled'; cases submit) (simp_all add: respond_to_vacancy_def)
    with o show ?thesis by blast
  qed
qed

theorem respond_to_vacancy_unfilled_is_true_witness:
  "respond_to_vacancy ops_no_letter_field 0 some_vacancy (asc ''Hello'') True = Inr (True, 8)
   \<and> respond_to_vacancy ops_no_respond_button 0 some_vacancy (asc ''Hello'') True = Inr (False, 5)
   \<and> safe_click ops_no_respond_button 2 respond_selectors = (False, 5)"
proof -
  have a: "open_vacancy ops_no_letter_field 0 some_vacancy = Inr 2
      \<and> safe_click ops_no_letter_field 2 respond_selectors = (True, 3)
      \<and> op_settle ops_no_letter_field 3 = Inr 4
      \<and> safe_fill ops_no_letter_field 4 letter_selectors (asc ''Hello'') = (False, 7)
      \<and> fill_editable ops_no_letter_field 7 (asc ''Hello'') = (False, 8)"
    by (simp add: open_vacancy_def ops_no_letter_field_def respond_selectors_def letter_selectors_def
        fill_editable_def editable_selector_def asc_def cyr_def cyr_table_def)
  have b: "respond_to_vacancy ops_no_respond_button 0 some_vacancy (asc ''Hello'') True = Inr (False, 5)"
    by (simp add: respond_to_vacancy_def open_vacancy_def ops_no_respond_button_def respond_selectors_def)
  have c: "safe_click ops_no_respond_button 2 respond_selectors = (False, 5)"
    by (simp add: ops_no_respond_button_def respond_selectors_def)
  from respond_to_vacancy_unfilled_is_true[of ops_no_letter_field 0 some_vacancy "asc ''Hello''" True] a
  have "respond_to_vacancy ops_no_letter_field 0 some_vacancy (asc ''Hello'') True = Inr (True, 8)"
    by blast
  with b c show ?thesis by simp
qed

section \<open>The interpreter: evaluation\<close>

lemmas interp_eval = norm_text_def strip_def re_sub_def re_search_def rx_spaces_def is_space_def
  asc_def cyr_def cyr_table_def is_cyrillic_def tabulated_def digit_value_def is_digit_def
  is_word_def lower_char_def lower_def ci_match_def py_int_def word_before_def word_here_def
  at_boundary_def prev_after_def seq_def lit_def lit_i_def group1_def rx_int_def rx_dash_def
  rx_1_3_def rx_3_6_def rx_6_plus_def rx_salary_k_def rx_salary_plain_def rx_filler_def
  extract_int_def default_query_def fromkeys_def detect_area_def experience_keyword_def
  detect_experience_def detect_remote_def detect_salary_def salary_synonyms_def
  detect_only_with_salary_def role_bits_def build_query_def rxm_eval

lemma django_norm: "norm_text U django_request = django_request"
  by (simp add: django_request_def interp_eval del: rxm.simps(4))

lemma django_lower: "lower U django_request = django_request_lower"
  by (simp add: django_request_def django_request_lower_def interp_eval)

lemma django_query:
  "build_query U django_request django_request_lower = asc ''Django'' @ cyr '' razrabotCik''"
  by (simp add: django_request_def django_request_lower_def interp_eval del: rxm.simps(4))

lemma django_want_n: "extract_int U django_request_lower = Some 5"
  by (simp add: django_request_lower_def interp_eval del: rxm.simps(4))

lemma django_area: "detect_area django_request_lower = Some 2"
  by (simp add: django_request_lower_def interp_eval)

lemma django_experience: "detect_experience U django_request_lower = Some (asc ''noExperience'')"
  by (simp add: django_request_lower_def interp_eval del: rxm.simps(4))

lemma django_remote: "detect_remote django_request_lower"
  by (simp add: django_request_lower_def interp_eval)

lemma django_salary: "detect_salary U django_request_lower = None"
  by (simp add: django_request_lower_def interp_eval del: rxm.simps(4))

text \<open>
  Claim C6. On the request \<open>naydi 5 vakansiy Django v SPb, junior, udalyonka\<close> the
  interpreter returns the query \<open>Django razrabotchik\<close>, the count 5, the area 2 (Saint
  Petersburg), the experience \<open>noExperience\<close>, remote work, and no salary.
\<close>

theorem ai_interpret_django_request:
  "ai_interpret_user_goal U django_request =
     \<lparr>query = asc ''Django'' @ cyr '' razrabotCik'', want_n = Some 5, area = Some 2,
      experience = Some (asc ''noExperience''), remote = True, salary = None,
      only_with_salary = False\<rparr>"
  by (simp add: ai_interpret_user_goal_def django_norm django_lower django_query django_want_n
      django_area django_experience django_remote django_salary detect_only_with_salary_def)

section \<open>The interpreter: the query is never empty\<close>

lemma starts_with_iff: "starts_with x s \<longleftrightarrow> (\<exists>q. s = x @ q)"
  by (induction x s rule: starts_with.induct) auto

lemma contains_iff: "contains x s \<longleftrightarrow> (\<exists>p q. s = p @ x @ q)"
proof (induction s)
  case Nil
  show ?case by simp
next
  case (Cons c s)
  show ?case
  proof
    assume "contains x (c # s)"
    then consider "starts_with x (c # s)" | "contains x s" by auto
    then show "\<exists>p q. c # s = p @ x @ q"
    proof cases
      case 1
      then obtain q where "c # s = x @ q" by (auto simp: starts_with_iff)
      then have "c # s = [] @ x @ q" by simp
      then show ?thesis by blast
    next
      case 2
      with Cons.IH obtain p q where "s = p @ x @ q" by auto
      then have "c # s = (c # p) @ x @ q" by simp
      then show ?thesis by blast
    qed
  next
    assume "\<exists>p q. c # s = p @ x @ q"
    then obtain p q where pq: "c # s = p @ x @ q" by auto
    show "contains x (c # s)"
    proof (cases p)
      case Nil
      with pq have "starts_with x (c # s)" by (auto simp: starts_with_iff)
      then show ?thesis by simp
    next
      case (Cons d p')
      with pq have "s = p' @ x @ q" by simp
      with Cons.IH have "contains x s" by blast
      then show ?thesis by simp
    qed
  qed
qed

lemma role_bits_choice:
  "role_bits tlow = role_choice (contains (asc ''python'') tlow \<or> contains (cyr ''piton'') tlow)
     (contains (asc ''backend'') tlow \<or> contains (cyr ''bEkend'') tlow \<or> contains (cyr ''bekend'') tlow)
     (contains (asc ''django'') tlow) (contains (asc ''fastapi'') tlow) (contains (asc ''asyncio'') tlow)"
  by (simp add: role_bits_def role_choice_def)

lemmas role_eval = role_choice_def interp_eval

lemma role_query_py_be:
  "norm_text U (re_sub U rx_filler (asc '' '')
      (join (asc '' '') (fromkeys (role_choice True True dj fa asy)) @ cyr '' razrabotCik''))
   = join (asc '' '') (role_choice True True dj fa asy) @ cyr '' razrabotCik''"
  by (cases dj; cases fa; cases asy) (simp_all add: role_eval del: rxm.simps(4))

lemma role_query_py:
  "norm_text U (re_sub U rx_filler (asc '' '')
      (join (asc '' '') (fromkeys (role_choice True False dj fa asy)) @ cyr '' razrabotCik''))
   = join (asc '' '') (role_choice True False dj fa asy) @ cyr '' razrabotCik''"
  by (cases dj; cases fa; cases asy) (simp_all add: role_eval del: rxm.simps(4))

lemma role_query_be:
  "norm_text U (re_sub U rx_filler (asc '' '')
      (join (asc '' '') (fromkeys (role_choice False True dj fa asy)) @ cyr '' razrabotCik''))
   = join (asc '' '') (role_choice False True dj fa asy) @ cyr '' razrabotCik''"
  by (cases dj; cases fa; cases asy) (simp_all add: role_eval del: rxm.simps(4))

lemma role_query_other:
  "dj \<or> fa \<or> asy \<Longrightarrow>
   norm_text U (re_sub U rx_filler (asc '' '')
      (join (asc '' '') (fromkeys (role_choice False False dj fa asy)) @ cyr '' razrabotCik''))
   = join (asc '' '') (role_choice False False dj fa asy) @ cyr '' razrabotCik''"
  by (cases dj; cases fa; cases asy) (simp_all add: role_eval del: rxm.simps(4))

lemma role_query_kept:
  assumes "role_choice py be dj fa asy \<noteq> []"
  shows "norm_text U (re_sub U rx_filler (asc '' '')
      (join (asc '' '') (fromkeys (role_choice py be dj fa asy)) @ cyr '' razrabotCik''))
   = join (asc '' '') (role_choice py be dj fa asy) @ cyr '' razrabotCik''"
proof (cases py)
  case True
  then show ?thesis by (cases be) (simp_all add: role_query_py_be role_query_py)
next
  case False
  show ?thesis
  proof (cases be)
    case True
    with False show ?thesis by (simp add: role_query_be)
  next
    case nbe: False
    with False assms have "dj \<or> fa \<or> asy" by (auto simp: role_choice_def split: if_splits)
    with False nbe show ?thesis by (simp add: role_query_other)
  qed
qed

lemma role_query_nonempty: "join (asc '' '') (role_choice py be dj fa asy) @ cyr '' razrabotCik'' \<noteq> []"
  by (simp add: cyr_def)

lemma build_query_roles:
  assumes "role_bits tlow \<noteq> []"
  shows "build_query U t tlow = join (asc '' '') (role_bits tlow) @ cyr '' razrabotCik''"
proof -
  obtain py be dj fa asy where rb: "role_bits tlow = role_choice py be dj fa asy"
    using role_bits_choice by blast
  with assms have ne: "role_choice py be dj fa asy \<noteq> []" by simp
  let ?j = "join (asc '' '') (role_bits tlow) @ cyr '' razrabotCik''"
  let ?x = "norm_text U (re_sub U rx_filler (asc '' '')
              (join (asc '' '') (fromkeys (role_bits tlow)) @ cyr '' razrabotCik''))"
  have b: "build_query U t tlow = (if ?x = [] then default_query else ?x)"
    using assms by (simp add: build_query_def Let_def)
  have k: "?x = ?j"
    unfolding rb by (rule role_query_kept[OF ne])
  have n: "?j \<noteq> []"
    unfolding rb by (rule role_query_nonempty)
  show ?thesis
    unfolding b k using n by (simp only: if_False)
qed

lemma empty_request_norm: "norm_text U [] = []"
  by (simp add: interp_eval)

lemma empty_request_query: "build_query U [] (lower U []) = default_query"
  by (simp add: interp_eval)

lemma filler_request_norm:
  "norm_text U filler_request = [0x41E] @ cyr ''tkroy '' @ asc ''hh.ru, '' @ cyr ''naydi vakansii''"
  by (simp add: filler_request_def interp_eval del: rxm.simps(4))

lemma filler_request_lower:
  "lower U ([0x41E] @ cyr ''tkroy '' @ asc ''hh.ru, '' @ cyr ''naydi vakansii'')
     = cyr ''otkroy '' @ asc ''hh.ru, '' @ cyr ''naydi vakansii''"
  by (simp add: interp_eval)

lemma filler_request_query:
  "build_query U ([0x41E] @ cyr ''tkroy '' @ asc ''hh.ru, '' @ cyr ''naydi vakansii'')
      (cyr ''otkroy '' @ asc ''hh.ru, '' @ cyr ''naydi vakansii'') = asc ''.ru,''"
  by (simp add: interp_eval del: rxm.simps(4))

text \<open>
  Claim C2. Whatever the input, the query the interpreter returns is not empty. With a
  role keyword in the text it is the keywords found, joined by spaces, followed by
  \<open>razrabotchik\<close> (the filler words do not occur in it). Without one it is the
  normalised input with the filler words removed, and \<open>Python razrabotchik\<close> when
  nothing is left of it, as for the empty input.
\<close>

theorem query_never_empty:
  "query (ai_interpret_user_goal U s) \<noteq> []
   \<and> (role_bits (lower U (norm_text U s)) \<noteq> []
        \<longrightarrow> query (ai_interpret_user_goal U s)
            = join (asc '' '') (role_bits (lower U (norm_text U s))) @ cyr '' razrabotCik'')
   \<and> (role_bits (lower U (norm_text U s)) = []
        \<longrightarrow> query (ai_interpret_user_goal U s)
            = (if norm_text U (re_sub U rx_filler (asc '' '') (norm_text U s)) = [] then default_query
               else norm_text U (re_sub U rx_filler (asc '' '') (norm_text U s))))
   \<and> query (ai_interpret_user_goal U []) = default_query
   \<and> default_query = asc ''Python'' @ cyr '' razrabotCik''"
proof -
  let ?t = "norm_text U s"
  let ?tl = "lower U ?t"
  have q: "query (ai_interpret_user_goal U s) = build_query U ?t ?tl"
    by (simp add: ai_interpret_user_goal_def Let_def)
  have dq: "default_query \<noteq> []" by (simp add: default_query_def asc_def)
  have roles: "role_bits ?tl \<noteq> [] \<Longrightarrow> build_query U ?t ?tl = join (asc '' '') (role_bits ?tl) @ cyr '' razrabotCik''"
    by (rule build_query_roles)
  have noroles: "role_bits ?tl = [] \<Longrightarrow> build_query U ?t ?tl
      = (if norm_text U (re_sub U rx_filler (asc '' '') ?t) = [] then default_query
         else norm_text U (re_sub U rx_filler (asc '' '') ?t))"
    by (simp add: build_query_def Let_def)
  have ne: "build_query U ?t ?tl \<noteq> []"
  proof (cases "role_bits ?tl = []")
    case True
    then show ?thesis using dq by (simp add: noroles)
  next
    case False
    then show ?thesis by (simp add: roles cyr_def)
  qed
  have e: "query (ai_interpret_user_goal U []) = default_query"
    by (simp add: ai_interpret_user_goal_def Let_def empty_request_norm empty_request_query)
  show ?thesis using q ne roles noroles e by (simp add: default_query_def)
qed

theorem query_never_empty_witness:
  "query (ai_interpret_user_goal U0 django_request) = asc ''Django'' @ cyr '' razrabotCik''
   \<and> role_bits (lower U0 (norm_text U0 django_request)) = [asc ''Django'']
   \<and> query (ai_interpret_user_goal U0 filler_request) = asc ''.ru,''
   \<and> role_bits (lower U0 (norm_text U0 filler_request)) = []"
proof -
  have r1: "role_bits (lower U0 (norm_text U0 django_request)) = [asc ''Django'']"
    by (simp add: django_norm django_lower) (simp add: django_request_lower_def interp_eval)
  have r2: "role_bits (lower U0 (norm_text U0 filler_request)) = []"
    by (simp add: filler_request_norm filler_request_lower) (simp add: interp_eval)
  have f: "norm_text U0 (re_sub U0 rx_filler (asc '' '') (norm_text U0 filler_request)) = asc ''.ru,''"
    by (simp add: filler_request_norm) (simp add: interp_eval del: rxm.simps(4))
  from query_never_empty[of U0 django_request] r1
  have a: "query (ai_interpret_user_goal U0 django_request) = asc ''Django'' @ cyr '' razrabotCik''"
    by (simp add: asc_def)
  from query_never_empty[of U0 filler_request] r2 f
  have b: "query (ai_interpret_user_goal U0 filler_request) = asc ''.ru,''"
    by (simp add: asc_def)
  show ?thesis using a b r1 r2 by simp
qed

section \<open>The interpreter: salary required\<close>

lemma only_salary_norm: "norm_text U only_salary_request = only_salary_request"
  by (simp add: only_salary_request_def interp_eval del: rxm.simps(4))

lemma only_salary_lower: "lower U only_salary_request = only_salary_request"
  by (simp add: only_salary_request_def interp_eval)

lemma only_salary_no_salary: "detect_salary U only_salary_request = None"
  by (simp add: only_salary_request_def interp_eval del: rxm.simps(4))

lemma salary_required_norm: "norm_text U salary_required_request = salary_required_request"
  by (simp add: salary_required_request_def interp_eval del: rxm.simps(4))

lemma salary_required_lower: "lower U salary_required_request = salary_required_request"
  by (simp add: salary_required_request_def interp_eval)

lemma salary_required_salary: "detect_salary U salary_required_request = Some 200000"
  by (simp add: salary_required_request_def interp_eval del: rxm.simps(4))

lemma salary_required_synonym: "contains (cyr ''s zarplatoy'') salary_required_request"
  by (simp add: salary_required_request_def interp_eval)

text \<open>
  Claim C5. \<open>only_with_salary\<close> is set exactly when a salary was found and one of the
  synonyms (\<open>tolxko s zp\<close>, \<open>tolxko s zarplat\<close>, \<open>s zarplatoy\<close>, \<open>only_with_salary\<close>)
  occurs in the normalised lower-case input; so it is set only with a salary. The input
  \<open>tolxko s zarplatoy\<close> alone has no salary and leaves it unset.
\<close>

theorem only_with_salary_needs_salary:
  "(only_with_salary (ai_interpret_user_goal U s)
      \<longleftrightarrow> salary (ai_interpret_user_goal U s) \<noteq> None
          \<and> (\<exists>x\<in>set salary_synonyms. contains x (lower U (norm_text U s))))
   \<and> salary (ai_interpret_user_goal U only_salary_request) = None
   \<and> \<not> only_with_salary (ai_interpret_user_goal U only_salary_request)"
  by (simp add: ai_interpret_user_goal_def Let_def detect_only_with_salary_def list_ex_iff
      only_salary_norm only_salary_lower only_salary_no_salary)

theorem only_with_salary_needs_salary_witness:
  "only_with_salary (ai_interpret_user_goal U0 salary_required_request)
   \<and> salary (ai_interpret_user_goal U0 salary_required_request) = Some 200000
   \<and> cyr ''s zarplatoy'' \<in> set salary_synonyms
   \<and> contains (cyr ''s zarplatoy'') (lower U0 (norm_text U0 salary_required_request))"
proof -
  have s: "salary (ai_interpret_user_goal U0 salary_required_request) = Some 200000"
    by (simp add: ai_interpret_user_goal_def Let_def salary_required_norm salary_required_lower
        salary_required_salary)
  have m: "cyr ''s zarplatoy'' \<in> set salary_synonyms"
    by (simp add: salary_synonyms_def)
  have c: "contains (cyr ''s zarplatoy'') (lower U0 (norm_text U0 salary_required_request))"
    by (simp add: salary_required_norm salary_required_lower salary_required_synonym)
  from only_with_salary_needs_salary[of U0 salary_required_request] s m c
  have "only_with_salary (ai_interpret_user_goal U0 salary_required_request)"
    by blast
  with s m c show ?thesis by simp
qed

section \<open>Searching\<close>

lemma prev_after_Cons_Suc: "prev_after prev (c # cs) (Suc i) = prev_after (Some c) cs i"
  by (simp add: prev_after_def case_append_head split: list.splits)

lemma search_from_Some_iff:
  "search_from U r prev s pos = Some (q, m) \<longleftrightarrow>
     pos \<le> q \<and> q - pos \<le> length s
     \<and> (\<exists>ms. rxm U r (prev_after prev s (q - pos)) (drop (q - pos) s) = m # ms)
     \<and> (\<forall>i<q - pos. rxm U r (prev_after prev s i) (drop i s) = [])"
proof (induction s arbitrary: prev pos)
  case Nil
  show ?case by (cases "rxm U r prev []") auto
next
  case (Cons c cs)
  show ?case
  proof (cases "rxm U r prev (c # cs)")
    case (Cons m' ms')
    show ?thesis
    proof
      assume "search_from U r prev (c # cs) pos = Some (q, m)"
      with Cons show "pos \<le> q \<and> q - pos \<le> length (c # cs)
         \<and> (\<exists>ms. rxm U r (prev_after prev (c # cs) (q - pos)) (drop (q - pos) (c # cs)) = m # ms)
         \<and> (\<forall>i<q - pos. rxm U r (prev_after prev (c # cs) i) (drop i (c # cs)) = [])"
        by auto
    next
      assume a: "pos \<le> q \<and> q - pos \<le> length (c # cs)
         \<and> (\<exists>ms. rxm U r (prev_after prev (c # cs) (q - pos)) (drop (q - pos) (c # cs)) = m # ms)
         \<and> (\<forall>i<q - pos. rxm U r (prev_after prev (c # cs) i) (drop i (c # cs)) = [])"
      have "q - pos = 0"
      proof (rule ccontr)
        assume "q - pos \<noteq> 0"
        with a have "rxm U r (prev_after prev (c # cs) 0) (drop 0 (c # cs)) = []" by blast
        with Cons show False by simp
      qed
      with a Cons show "search_from U r prev (c # cs) pos = Some (q, m)" by auto
    qed
  next
    case Nil
    have step: "search_from U r prev (c # cs) pos = search_from U r (Some c) cs (Suc pos)"
      by (simp add: Nil)
    show ?thesis
    proof
      assume "search_from U r prev (c # cs) pos = Some (q, m)"
      with step Cons.IH[of "Some c" "Suc pos"]
      have b: "Suc pos \<le> q \<and> q - Suc pos \<le> length cs
         \<and> (\<exists>ms. rxm U r (prev_after (Some c) cs (q - Suc pos)) (drop (q - Suc pos) cs) = m # ms)
         \<and> (\<forall>i<q - Suc pos. rxm U r (prev_after (Some c) cs i) (drop i cs) = [])"
        by simp
      then obtain k where k: "q - pos = Suc k" "q - Suc pos = k"
        by (metis Suc_diff_Suc Suc_le_lessD diff_Suc_Suc)
      have "\<forall>i<q - pos. rxm U r (prev_after prev (c # cs) i) (drop i (c # cs)) = []"
      proof (intro allI impI)
        fix i assume "i < q - pos"
        show "rxm U r (prev_after prev (c # cs) i) (drop i (c # cs)) = []"
        proof (cases i)
          case 0
          then show ?thesis by (simp add: Nil)
        next
          case (Suc j)
          with \<open>i < q - pos\<close> k have "j < q - Suc pos" by simp
          with b Suc show ?thesis by (simp add: prev_after_Cons_Suc)
        qed
      qed
      with b k show "pos \<le> q \<and> q - pos \<le> length (c # cs)
         \<and> (\<exists>ms. rxm U r (prev_after prev (c # cs) (q - pos)) (drop (q - pos) (c # cs)) = m # ms)
         \<and> (\<forall>i<q - pos. rxm U r (prev_after prev (c # cs) i) (drop i (c # cs)) = [])"
        by (simp add: prev_after_Cons_Suc)
    next
      assume a: "pos \<le> q \<and> q - pos \<le> length (c # cs)
         \<and> (\<exists>ms. rxm U r (prev_after prev (c # cs) (q - pos)) (drop (q - pos) (c # cs)) = m # ms)
         \<and> (\<forall>i<q - pos. rxm U r (prev_after prev (c # cs) i) (drop i (c # cs)) = [])"
      have "q - pos \<noteq> 0"
      proof
        assume "q - pos = 0"
        with a Nil show False by simp
      qed
      then obtain k where k: "q - pos = Suc k" by (cases "q - pos") auto
      then have k': "q - Suc pos = k" "Suc pos \<le> q" by simp_all
      have "\<forall>i<k. rxm U r (prev_after (Some c) cs i) (drop i cs) = []"
      proof (intro allI impI)
        fix i assume "i < k"
        then have "Suc i < q - pos" using k by simp
        with a have "rxm U r (prev_after prev (c # cs) (Suc i)) (drop (Suc i) (c # cs)) = []" by blast
        then show "rxm U r (prev_after (Some c) cs i) (drop i cs) = []"
          by (simp add: prev_after_Cons_Suc)
      qed
      with a k k' have "search_from U r (Some c) cs (Suc pos) = Some (q, m)"
        by (simp add: Cons.IH prev_after_Cons_Suc)
      with step show "search_from U r prev (c # cs) pos = Some (q, m)" by simp
    qed
  qed
qed

lemma re_search_Some_iff:
  "re_search U r s = Some (q, m) \<longleftrightarrow>
     q \<le> length s \<and> (\<exists>ms. match_at U r s q = m # ms) \<and> (\<forall>i<q. match_at U r s i = [])"
  by (simp add: re_search_def match_at_def search_from_Some_iff)

lemma search_from_None_iff:
  "search_from U r prev s pos = None \<longleftrightarrow>
     (\<forall>i\<le>length s. rxm U r (prev_after prev s i) (drop i s) = [])"
proof (induction s arbitrary: prev pos)
  case Nil
  show ?case by (cases "rxm U r prev []") auto
next
  case (Cons c cs)
  show ?case
  proof (cases "rxm U r prev (c # cs)")
    case (Cons m' ms')
    then have "rxm U r (prev_after prev (c # cs) 0) (drop 0 (c # cs)) \<noteq> []" by simp
    then have "\<not> (\<forall>i\<le>length (c # cs). rxm U r (prev_after prev (c # cs) i) (drop i (c # cs)) = [])"
      by blast
    with Cons show ?thesis by simp
  next
    case Nil
    have "(\<forall>i\<le>length (c # cs). rxm U r (prev_after prev (c # cs) i) (drop i (c # cs)) = [])
        \<longleftrightarrow> (\<forall>i\<le>length cs. rxm U r (prev_after (Some c) cs i) (drop i cs) = [])"
    proof
      assume a: "\<forall>i\<le>length (c # cs). rxm U r (prev_after prev (c # cs) i) (drop i (c # cs)) = []"
      show "\<forall>i\<le>length cs. rxm U r (prev_after (Some c) cs i) (drop i cs) = []"
      proof (intro allI impI)
        fix i assume "i \<le> length cs"
        with a have "rxm U r (prev_after prev (c # cs) (Suc i)) (drop (Suc i) (c # cs)) = []"
          by (metis Suc_le_mono length_Cons)
        then show "rxm U r (prev_after (Some c) cs i) (drop i cs) = []"
          by (simp add: prev_after_Cons_Suc)
      qed
    next
      assume a: "\<forall>i\<le>length cs. rxm U r (prev_after (Some c) cs i) (drop i cs) = []"
      show "\<forall>i\<le>length (c # cs). rxm U r (prev_after prev (c # cs) i) (drop i (c # cs)) = []"
      proof (intro allI impI)
        fix i assume i: "i \<le> length (c # cs)"
        show "rxm U r (prev_after prev (c # cs) i) (drop i (c # cs)) = []"
        proof (cases i)
          case 0
          then show ?thesis by (simp add: Nil)
        next
          case (Suc j)
          with i a show ?thesis by (simp add: prev_after_Cons_Suc)
        qed
      qed
    qed
    with Nil Cons.IH[of "Some c" "Suc pos"] show ?thesis by simp
  qed
qed

lemma re_search_None_iff:
  "re_search U r s = None \<longleftrightarrow> (\<forall>i\<le>length s. match_at U r s i = [])"
  by (simp add: re_search_def match_at_def search_from_None_iff)

lemma prev_after_append_length: "prev_after prev (pre @ s) (length pre) = prev_after prev pre (length pre)"
  by (simp add: prev_after_def)

lemma match_at_append:
  "match_at U r (pre @ s) (length pre) = rxm U r (prev_after None pre (length pre)) s"
  by (simp add: match_at_def prev_after_append_length)

section \<open>Greedy white space\<close>

lemma concat_rev_upt_last:
  assumes "\<And>k. k < n \<Longrightarrow> f k = []"
  shows "concat (map f (rev [0..<Suc n])) = f n"
proof -
  have "concat (map f (rev [0..<n])) = []"
    using assms by (induction n) auto
  then show ?thesis by simp
qed

lemma takeWhile_prefix_holds: "k < length (takeWhile P xs) \<Longrightarrow> P (xs ! k)"
  by (metis nth_mem set_takeWhileD takeWhile_nth)

lemma drop_in_takeWhile:
  assumes "k < length (takeWhile P xs)"
  shows "\<exists>c cs. drop k xs = c # cs \<and> P c"
proof -
  have "k < length xs"
    using assms length_takeWhile_le[of P xs] by simp
  then have "drop k xs = xs ! k # drop (Suc k) xs"
    by (simp add: Cons_nth_drop_Suc)
  with takeWhile_prefix_holds[OF assms] show ?thesis by blast
qed

lemma merge_count: "merge (n, None) = shift n"
  by (rule ext) (simp add: merge_def shift_def)

lemma rxm_Cat_Spaces:
  assumes fails: "\<And>c cs p. is_space c \<Longrightarrow> rxm U r p (c # cs) = []"
  shows "rxm U (Cat (Rep Space 0 None) r) prev s =
     map (shift (length (takeWhile is_space s)))
       (rxm U r (prev_after prev s (length (takeWhile is_space s))) (dropWhile is_space s))"
proof -
  let ?n = "length (takeWhile is_space s)"
  have sp: "atom_ok U Space = is_space" by (rule ext) simp
  have early: "cont U r prev s (k, None) = []" if "k < ?n" for k
  proof -
    from drop_in_takeWhile[OF that] obtain c cs where "drop k s = c # cs" "is_space c" by blast
    then show ?thesis by (simp add: cont_def fails)
  qed
  have "rxm U (Cat (Rep Space 0 None) r) prev s
      = concat (map (\<lambda>k. cont U r prev s (k, None)) (rev [0..<Suc ?n]))"
    by (simp add: rxm_Cat_Rep sp comp_def del: rxm.simps(4) upt_Suc)
  also have "\<dots> = cont U r prev s (?n, None)"
    by (rule concat_rev_upt_last) (rule early)
  also have "\<dots> = map (shift ?n) (rxm U r (prev_after prev s ?n) (dropWhile is_space s))"
    by (simp add: cont_def merge_count dropWhile_eq_drop)
  finally show ?thesis .
qed

lemma space_cases:
  "is_space c \<Longrightarrow> c < 48 \<or> (57 < c \<and> c < 65) \<or> (122 < c \<and> c < 0x400) \<or> 0x45F < c"
  unfolding is_space_def by linarith

lemma space_tabulated: "is_space c \<Longrightarrow> tabulated c"
  by (simp add: tabulated_def)

lemma space_not_digit: "is_space c \<Longrightarrow> \<not> is_digit U c"
  using space_cases[of c] by (simp add: is_digit_def digit_value_def space_tabulated) linarith

lemma space_not_word: "is_space c \<Longrightarrow> \<not> is_word U c"
proof -
  assume s: "is_space c"
  then have t: "tabulated c" by (rule space_tabulated)
  from s have n: "c \<noteq> 95" unfolding is_space_def by linarith
  from space_cases[OF s] t n show ?thesis
    unfolding is_word_def is_cyrillic_def by auto
qed

lemma digit_is_word: "is_digit U c \<Longrightarrow> is_word U c"
  unfolding is_digit_def digit_value_def is_word_def tabulated_def
  by (auto split: if_splits)

section \<open>The range patterns\<close>

lemma rxm_Cat_Spaces_dash:
  "rxm U (Cat (Rep Space 0 None) (Cat (Atom (OneOf [0x2D, 0x2013])) r)) prev s =
     map (shift (length (takeWhile is_space s)))
       (rxm U (Cat (Atom (OneOf [0x2D, 0x2013])) r)
          (prev_after prev s (length (takeWhile is_space s))) (dropWhile is_space s))"
proof (rule rxm_Cat_Spaces)
  fix c cs p assume "is_space c"
  then have "c \<noteq> 0x2D \<and> c \<noteq> 0x2013" unfolding is_space_def by linarith
  then show "rxm U (Cat (Atom (OneOf [0x2D, 0x2013])) r) p (c # cs) = []"
    by (simp add: rxm_Cat_Atom_Cons del: rxm.simps(4))
qed

lemma rxm_Cat_Spaces_chr:
  assumes "\<not> is_space x"
  shows "rxm U (Cat (Rep Space 0 None) (Cat (Atom (Chr x)) r)) prev s =
     map (shift (length (takeWhile is_space s)))
       (rxm U (Cat (Atom (Chr x)) r)
          (prev_after prev s (length (takeWhile is_space s))) (dropWhile is_space s))"
proof (rule rxm_Cat_Spaces)
  fix c cs p assume "is_space c"
  with assms have "c \<noteq> x" by auto
  then show "rxm U (Cat (Atom (Chr x)) r) p (c # cs) = []"
    by (simp add: rxm_Cat_Atom_Cons del: rxm.simps(4))
qed

text \<open>The range pattern \<open>\ba\s*[-\<dots>]\s*b\b\<close> for two characters \<open>a\<close>, \<open>b\<close>.\<close>

lemma range_shape:
  assumes m: "rxm U (seq [Bnd, lit [a], Rep Space 0 None, rx_dash, Rep Space 0 None, lit [b], Bnd]) prev s \<noteq> []"
  shows "at_boundary U prev s \<and> (\<exists>c rest. s = a # c # rest \<and> (is_space c \<or> c = 0x2D \<or> c = 0x2013))"
proof -
  have b: "at_boundary U prev s"
    using m by (simp add: seq_def lit_def rx_dash_def rxm_Cat_Bnd del: rxm.simps(4) split: if_splits)
  from m obtain c0 s1 where s: "s = c0 # s1"
    by (cases s) (simp_all add: seq_def lit_def rx_dash_def rxm_Cat_Bnd rxm_Cat_Cat rxm_Cat_Atom_Nil
        del: rxm.simps(4) split: if_splits)
  from m s have a: "c0 = a"
    by (simp add: seq_def lit_def rx_dash_def rxm_Cat_Bnd rxm_Cat_Cat rxm_Cat_Atom_Cons
        del: rxm.simps(4) split: if_splits)
  from m s a b
  have m1: "rxm U (Cat (Atom (OneOf [0x2D, 0x2013])) (Cat (Rep Space 0 None) (Cat (Cat (Atom (Chr b)) Eps) (Cat Bnd Eps))))
          (prev_after (Some a) s1 (length (takeWhile is_space s1))) (dropWhile is_space s1) \<noteq> []"
    by (simp add: seq_def lit_def rx_dash_def rxm_Cat_Bnd rxm_Cat_Cat rxm_Cat_Atom_Cons rxm_Cat_Eps
        rxm_Cat_Spaces_dash del: rxm.simps(4))
  then obtain d s2 where d: "dropWhile is_space s1 = d # s2"
    by (cases "dropWhile is_space s1") (simp_all add: rxm_Cat_Atom_Nil del: rxm.simps(4))
  with m1 have dd: "d = 0x2D \<or> d = 0x2013"
    by (simp add: rxm_Cat_Atom_Cons del: rxm.simps(4) split: if_splits)
  from d have "s1 \<noteq> []" by auto
  then obtain c rest where s1: "s1 = c # rest" by (cases s1) auto
  have "is_space c \<or> c = 0x2D \<or> c = 0x2013"
  proof (cases "is_space c")
    case False
    with d s1 have "c = d" by simp
    with dd show ?thesis by simp
  qed simp
  with s a s1 b show ?thesis by blast
qed

section \<open>The interpreter: the count and the experience range\<close>

lemma rx_int_single:
  assumes "is_digit U a" "\<not> is_word U c"
  shows "rxm U rx_int prev (a # c # rest) =
     (if at_boundary U prev (a # c # rest) then [(1, Some [a])] else [])"
proof -
  from assms(2) have nd: "\<not> is_digit U c" using digit_is_word by blast
  have w: "is_word U a" using assms(1) by (rule digit_is_word)
  have dg: "atom_ok U Digit = is_digit U" by (rule ext) simp
  have g: "rxm U (Grp (Rep Digit 1 (Some 2))) prev (a # c # rest) = [(1, Some [a])]"
    using assms(1) nd by (simp add: dg)
  have cn: "cont U (Cat Bnd Eps) prev (a # c # rest) (1, Some [a]) = [(1, Some [a])]"
    using w assms(2)
    by (simp add: cont_def merge_def prev_after_def at_boundary_def word_before_def word_here_def)
  have "rxm U (Cat (Grp (Rep Digit 1 (Some 2))) (Cat Bnd Eps)) prev (a # c # rest) = [(1, Some [a])]"
    unfolding rxm_Cat_Grp g using cn by simp
  then show ?thesis
    unfolding rx_int_def seq_def
    by (simp add: rxm_Cat_Bnd del: rxm.simps One_nat_def)
qed

lemma py_int_1: "py_int U [0x31] = 1"
  by (simp add: py_int_def digit_value_def)

lemma rx_1_3_seq: "rx_1_3 = seq [Bnd, lit [0x31], Rep Space 0 None, rx_dash, Rep Space 0 None, lit [0x33], Bnd]"
  by (simp add: rx_1_3_def asc_def)

lemma range_request_norm: "norm_text U range_request = range_request"
  by (simp add: range_request_def interp_eval del: rxm.simps(4))

lemma range_request_lower: "lower U range_request = range_request"
  by (simp add: range_request_def interp_eval)

lemma range_request_int: "re_search U rx_int range_request = Some (5, 1, Some (asc ''1''))"
  by (simp add: range_request_def interp_eval del: rxm.simps(4))

lemma range_request_match: "match_at U rx_1_3 range_request 5 = [(3, None)]"
  by (simp add: match_at_def range_request_def interp_eval del: rxm.simps(4))

text \<open>
  Claim C10. When the first standalone number of one or two digits that
  \<open>_extract_int\<close> finds starts where the range pattern \<open>1-3\<close> matches, that number is
  the 1 of the range, and the interpreter returns the count 1. So it does on
  \<open>opyt 1-3 goda\<close>, whose only digits are those of the range.
\<close>

theorem want_n_is_range_start:
  "re_search U rx_int (lower U (norm_text U s)) = Some (p, m)
     \<and> match_at U rx_1_3 (lower U (norm_text U s)) p \<noteq> []
   \<longrightarrow> want_n (ai_interpret_user_goal U s) = Some 1"
proof
  let ?tl = "lower U (norm_text U s)"
  assume h: "re_search U rx_int ?tl = Some (p, m) \<and> match_at U rx_1_3 ?tl p \<noteq> []"
  let ?prev = "prev_after None ?tl p"
  from h have "rxm U rx_1_3 ?prev (drop p ?tl) \<noteq> []" by (simp add: match_at_def)
  from range_shape[OF this[unfolded rx_1_3_seq]]
  obtain c rest where d: "drop p ?tl = 0x31 # c # rest" and c: "is_space c \<or> c = 0x2D \<or> c = 0x2013"
    and b: "at_boundary U ?prev (drop p ?tl)"
    by blast
  have nw: "\<not> is_word U c"
    using c space_not_word[of c U] by (auto simp: is_word_def tabulated_def is_cyrillic_def)
  have dg: "is_digit U 0x31" by (simp add: is_digit_def digit_value_def)
  from h obtain ms where "match_at U rx_int ?tl p = m # ms"
    by (auto simp: re_search_Some_iff)
  then have "rxm U rx_int ?prev (0x31 # c # rest) = m # ms"
    by (simp add: match_at_def d)
  with rx_int_single[OF dg nw, of ?prev rest] b d have "m = (1, Some [0x31])"
    by (simp split: if_splits)
  with h have "extract_int U ?tl = Some 1"
    by (simp add: extract_int_def group1_def py_int_1)
  then show "want_n (ai_interpret_user_goal U s) = Some 1"
    by (simp add: ai_interpret_user_goal_def Let_def)
qed

theorem want_n_is_range_start_witness:
  "want_n (ai_interpret_user_goal U0 range_request) = Some 1
   \<and> re_search U0 rx_int (lower U0 (norm_text U0 range_request)) = Some (5, 1, Some (asc ''1''))
   \<and> match_at U0 rx_1_3 (lower U0 (norm_text U0 range_request)) 5 = [(3, None)]"
proof -
  have a: "re_search U0 rx_int (lower U0 (norm_text U0 range_request)) = Some (5, 1, Some (asc ''1''))"
    by (simp add: range_request_norm range_request_lower range_request_int)
  have b: "match_at U0 rx_1_3 (lower U0 (norm_text U0 range_request)) 5 = [(3, None)]"
    by (simp add: range_request_norm range_request_lower range_request_match)
  from want_n_is_range_start[of U0 range_request 5 "(1, Some (asc ''1''))"] a b
  have "want_n (ai_interpret_user_goal U0 range_request) = Some 1" by simp
  with a b show ?thesis by simp
qed

section \<open>The interpreter: the range 1-3 and what overrides it\<close>

lemma prev_after_full: "prev_after prev pre (length pre) = (if pre = [] then prev else Some (last pre))"
  by (cases pre rule: rev_cases) (simp_all add: prev_after_def)

lemma takeWhile_spaces_then:
  "list_all is_space ws \<Longrightarrow> \<not> is_space d \<Longrightarrow> takeWhile is_space (ws @ d # rest) = ws"
  by (simp add: list_all_iff takeWhile_append2)

lemma dropWhile_spaces_then:
  "list_all is_space ws \<Longrightarrow> \<not> is_space d \<Longrightarrow> dropWhile is_space (ws @ d # rest) = d # rest"
  by (simp add: list_all_iff dropWhile_append2)

lemma rxm_Cat_Spaces_lit:
  assumes "\<not> is_space x"
  shows "rxm U (Cat (Rep Space 0 None) (Cat (Cat (Atom (Chr x)) Eps) r)) prev s =
     map (shift (length (takeWhile is_space s)))
       (rxm U (Cat (Atom (Chr x)) (Cat Eps r))
          (prev_after prev s (length (takeWhile is_space s))) (dropWhile is_space s))"
proof -
  have "rxm U (Cat (Rep Space 0 None) (Cat (Cat (Atom (Chr x)) Eps) r)) prev s =
     map (shift (length (takeWhile is_space s)))
       (rxm U (Cat (Cat (Atom (Chr x)) Eps) r)
          (prev_after prev s (length (takeWhile is_space s))) (dropWhile is_space s))"
  proof (rule rxm_Cat_Spaces)
    fix c cs p assume "is_space c"
    with assms have "c \<noteq> x" by auto
    then show "rxm U (Cat (Cat (Atom (Chr x)) Eps) r) p (c # cs) = []"
      by (simp add: rxm_Cat_Cat rxm_Cat_Atom_Cons del: rxm.simps(4))
  qed
  then show ?thesis by (simp add: rxm_Cat_Cat del: rxm.simps(4))
qed

lemma range_token:
  assumes ws: "list_all is_space ws1" "list_all is_space ws2"
    and d: "d = 0x2D \<or> d = 0x2013"
    and a: "is_word U a" and b: "is_word U b"
    and before: "\<not> word_before U prev" and after: "\<not> word_here U post"
  shows "rxm U (seq [Bnd, lit [a], Rep Space 0 None, rx_dash, Rep Space 0 None, lit [b], Bnd]) prev
           ([a] @ ws1 @ [d] @ ws2 @ [b] @ post) = [(3 + length ws1 + length ws2, None)]"
proof -
  have nd: "\<not> is_space d" using d unfolding is_space_def by linarith
  have nb: "\<not> is_space b" using b space_not_word by blast
  have b0: "at_boundary U prev (a # ws1 @ d # ws2 @ b # post)"
    using a before by (simp add: at_boundary_def word_here_def)
  have b1: "at_boundary U (Some b) post"
    using b after by (simp add: at_boundary_def word_before_def)
  have t1: "takeWhile is_space (ws1 @ d # ws2 @ b # post) = ws1"
    and d1: "dropWhile is_space (ws1 @ d # ws2 @ b # post) = d # ws2 @ b # post"
    using ws(1) nd by (simp_all add: takeWhile_spaces_then dropWhile_spaces_then)
  have t2: "takeWhile is_space (ws2 @ b # post) = ws2"
    and d2: "dropWhile is_space (ws2 @ b # post) = b # post"
    using ws(2) nb by (simp_all add: takeWhile_spaces_then dropWhile_spaces_then)
  have dm: "d = 45 \<or> d = 8211" using d by simp
  show ?thesis
    using b0 b1 dm
    by (simp add: seq_def lit_def rx_dash_def rxm_Cat_Bnd rxm_Cat_Cat rxm_Cat_Eps rxm_Cat_Atom_Cons
        rxm_Cat_Spaces_dash rxm_Cat_Spaces_lit[OF nb] t1 d1 t2 d2 shift_def del: rxm.simps(4))
qed

lemma one_is_word: "is_word U 0x31" and three_is_word: "is_word U 0x33"
  by (simp_all add: is_word_def)

lemma range_1_3_found:
  assumes "t = pre @ [0x31] @ ws1 @ [d] @ ws2 @ [0x33] @ post"
    and "list_all is_space ws1" "list_all is_space ws2" "d = 0x2D \<or> d = 0x2013"
    and "pre = [] \<or> \<not> is_word U (last pre)" "post = [] \<or> \<not> is_word U (hd post)"
  shows "re_search U rx_1_3 t \<noteq> None"
proof
  assume "re_search U rx_1_3 t = None"
  then have "match_at U rx_1_3 t (length pre) = []"
    using assms(1) by (simp add: re_search_None_iff)
  then have e: "rxm U rx_1_3 (prev_after None pre (length pre)) ([0x31] @ ws1 @ [d] @ ws2 @ [0x33] @ post) = []"
    unfolding assms(1) by (simp only: match_at_append)
  have before: "\<not> word_before U (prev_after None pre (length pre))"
    using assms(5) by (auto simp add: prev_after_full word_before_def)
  have after: "\<not> word_here U post"
    using assms(6) by (cases post) (auto simp add: word_here_def)
  from range_token[OF assms(2) assms(3) assms(4) one_is_word three_is_word before after] e
  show False by (simp add: rx_1_3_seq)
qed

lemma experience_order:
  "detect_experience U t =
     (if re_search U rx_6_plus t \<noteq> None then Some (asc ''moreThan6'')
      else if re_search U rx_3_6 t \<noteq> None then Some (asc ''between3And6'')
      else if re_search U rx_1_3 t \<noteq> None then Some (asc ''between1And3'')
      else experience_keyword t)"
  by (simp add: detect_experience_def Let_def)

lemma two_ranges_norm: "norm_text U two_ranges_request = two_ranges_request"
  by (simp add: two_ranges_request_def interp_eval del: rxm.simps(4))

lemma two_ranges_lower: "lower U two_ranges_request = two_ranges_request"
  by (simp add: two_ranges_request_def interp_eval)

lemma two_ranges_experience: "detect_experience U two_ranges_request = Some (asc ''between3And6'')"
  by (simp add: two_ranges_request_def interp_eval del: rxm.simps(4))

lemma two_ranges_1_3: "re_search U rx_1_3 two_ranges_request = Some (5, 3, None)"
  by (simp add: two_ranges_request_def interp_eval del: rxm.simps(4))

lemma senior_range_norm: "norm_text U senior_range_request = senior_range_request"
  by (simp add: senior_range_request_def interp_eval del: rxm.simps(4))

lemma senior_range_lower: "lower U senior_range_request = senior_range_request"
  by (simp add: senior_range_request_def interp_eval)

lemma senior_range_3_6: "re_search U rx_3_6 senior_range_request = None"
  by (simp add: senior_range_request_def interp_eval del: rxm.simps(4))

lemma senior_range_6_plus: "re_search U rx_6_plus senior_range_request = None"
  by (simp add: senior_range_request_def interp_eval del: rxm.simps(4))

lemma senior_range_keyword: "experience_keyword senior_range_request = Some (asc ''between3And6'')"
  by (simp add: senior_range_request_def interp_eval)

text \<open>
  Claim C3 fails as stated: \<open>opyt 1-3 ili 3-6 let\<close> contains the token \<open>1-3\<close>, and the
  interpreter answers \<open>between3And6\<close>, because the pattern \<open>3-6\<close> is tested after the
  pattern \<open>1-3\<close> and overrides it.
\<close>

theorem range_1_3_overridden:
  "contains (asc ''1-3'') two_ranges_request
   \<and> re_search U0 rx_1_3 (lower U0 (norm_text U0 two_ranges_request)) = Some (5, 3, None)
   \<and> experience (ai_interpret_user_goal U0 two_ranges_request) = Some (asc ''between3And6'')"
proof -
  have "contains (asc ''1-3'') two_ranges_request"
    by (simp add: two_ranges_request_def asc_def cyr_def cyr_table_def)
  then show ?thesis
    by (simp add: ai_interpret_user_goal_def Let_def two_ranges_norm two_ranges_lower
        two_ranges_experience two_ranges_1_3)
qed

text \<open>
  Claim C3, amended. Let the normalised lower-case input contain the token \<open>1-3\<close>: a 1,
  white space or none, a hyphen or an en dash, white space or none, a 3, with no word
  character right before the 1 or right after the 3. If neither the pattern \<open>3-6\<close> nor
  the pattern for \<open>6+\<close> and \<open>bolee 6\<close> matches in it, the experience is
  \<open>between1And3\<close>, whatever keywords occur. The three patterns are tested in this
  order and the last that matches decides, before any keyword.
\<close>

theorem range_1_3_overrides_keywords:
  "(lower U (norm_text U s) = pre @ [0x31] @ ws1 @ [d] @ ws2 @ [0x33] @ post
      \<and> list_all is_space ws1 \<and> list_all is_space ws2 \<and> (d = 0x2D \<or> d = 0x2013)
      \<and> (pre = [] \<or> \<not> is_word U (last pre)) \<and> (post = [] \<or> \<not> is_word U (hd post))
      \<and> re_search U rx_3_6 (lower U (norm_text U s)) = None
      \<and> re_search U rx_6_plus (lower U (norm_text U s)) = None
    \<longrightarrow> experience (ai_interpret_user_goal U s) = Some (asc ''between1And3''))
   \<and> experience (ai_interpret_user_goal U s) =
       (if re_search U rx_6_plus (lower U (norm_text U s)) \<noteq> None then Some (asc ''moreThan6'')
        else if re_search U rx_3_6 (lower U (norm_text U s)) \<noteq> None then Some (asc ''between3And6'')
        else if re_search U rx_1_3 (lower U (norm_text U s)) \<noteq> None then Some (asc ''between1And3'')
        else experience_keyword (lower U (norm_text U s)))"
proof (intro conjI impI)
  let ?tl = "lower U (norm_text U s)"
  have e: "experience (ai_interpret_user_goal U s) = detect_experience U ?tl"
    by (simp add: ai_interpret_user_goal_def Let_def)
  show "experience (ai_interpret_user_goal U s) =
       (if re_search U rx_6_plus ?tl \<noteq> None then Some (asc ''moreThan6'')
        else if re_search U rx_3_6 ?tl \<noteq> None then Some (asc ''between3And6'')
        else if re_search U rx_1_3 ?tl \<noteq> None then Some (asc ''between1And3'')
        else experience_keyword ?tl)"
    unfolding e by (rule experience_order)
  assume h: "?tl = pre @ [0x31] @ ws1 @ [d] @ ws2 @ [0x33] @ post
      \<and> list_all is_space ws1 \<and> list_all is_space ws2 \<and> (d = 0x2D \<or> d = 0x2013)
      \<and> (pre = [] \<or> \<not> is_word U (last pre)) \<and> (post = [] \<or> \<not> is_word U (hd post))
      \<and> re_search U rx_3_6 ?tl = None \<and> re_search U rx_6_plus ?tl = None"
  then have f: "re_search U rx_1_3 ?tl \<noteq> None"
    by (intro range_1_3_found[of ?tl pre ws1 d ws2 post]) simp_all
  from h have n: "re_search U rx_3_6 ?tl = None" "re_search U rx_6_plus ?tl = None"
    by blast+
  show "experience (ai_interpret_user_goal U s) = Some (asc ''between1And3'')"
    unfolding e experience_order using f n by simp
qed

theorem range_1_3_overrides_keywords_witness:
  "experience (ai_interpret_user_goal U0 senior_range_request) = Some (asc ''between1And3'')
   \<and> experience_keyword (lower U0 (norm_text U0 senior_range_request)) = Some (asc ''between3And6'')
   \<and> lower U0 (norm_text U0 senior_range_request)
       = (asc ''senior, '' @ cyr ''opYt '') @ [0x31] @ asc '' '' @ [0x2013] @ asc '' '' @ [0x33] @ cyr '' goda''"
proof -
  let ?tl = "lower U0 (norm_text U0 senior_range_request)"
  have tl: "?tl = senior_range_request"
    by (simp add: senior_range_norm senior_range_lower)
  have shape: "?tl = (asc ''senior, '' @ cyr ''opYt '') @ [0x31] @ asc '' '' @ [0x2013] @ asc '' '' @ [0x33] @ cyr '' goda''"
    unfolding tl by (simp add: senior_range_request_def asc_def cyr_def cyr_table_def)
  have side: "list_all is_space (asc '' '') \<and> ((0x2013::nat) = 0x2D \<or> (0x2013::nat) = 0x2013)
      \<and> (asc ''senior, '' @ cyr ''opYt '' = [] \<or> \<not> is_word U0 (last (asc ''senior, '' @ cyr ''opYt '')))
      \<and> (cyr '' goda'' = [] \<or> \<not> is_word U0 (hd (cyr '' goda'')))"
    by (simp add: asc_def cyr_def cyr_table_def is_space_def is_word_def)
  have none: "re_search U0 rx_3_6 ?tl = None \<and> re_search U0 rx_6_plus ?tl = None"
    unfolding tl by (simp add: senior_range_3_6 senior_range_6_plus)
  have kw: "experience_keyword ?tl = Some (asc ''between3And6'')"
    unfolding tl by (rule senior_range_keyword)
  from range_1_3_overrides_keywords[of U0 senior_range_request "asc ''senior, '' @ cyr ''opYt ''"
      "asc '' ''" "0x2013" "asc '' ''" "cyr '' goda''"] shape side none
  have "experience (ai_interpret_user_goal U0 senior_range_request) = Some (asc ''between1And3'')"
    by blast
  with kw shape show ?thesis by simp
qed

section \<open>The interpreter: the salary in thousands\<close>

lemma rx_salary_k_split:
  "rx_salary_k = Cat (Opt (seq [lit (cyr ''ot''), Rep Space 0 None])) rx_thousands"
  by (simp add: rx_salary_k_def rx_thousands_def seq_def)

lemma digits_none: "rxm U (Grp (Rep Digit 2 (Some 3))) prev [] = []"
  by simp

lemma digits_not: "\<not> is_digit U c \<Longrightarrow> rxm U (Grp (Rep Digit 2 (Some 3))) prev (c # cs) = []"
  by simp

lemma thousands_Nil: "rxm U rx_thousands prev [] = []"
  unfolding rx_thousands_def seq_def by (simp add: rxm_Cat_Grp del: rxm.simps(4))

lemma thousands_not_digit: "\<not> is_digit U c \<Longrightarrow> rxm U rx_thousands prev (c # cs) = []"
  unfolding rx_thousands_def seq_def by (simp add: rxm_Cat_Grp del: rxm.simps(4))

lemma marker_facts:
  assumes "mk = 0x43A \<or> mk = 0x6B"
  shows "\<not> is_space mk" "is_word U mk" "\<not> is_digit U mk"
  using assms
  by (auto simp add: is_space_def is_word_def is_cyrillic_def is_digit_def digit_value_def tabulated_def)

lemma thousands_after_spaces:
  "rxm U (Cat (Rep Space 0 None) (Cat (Alt (lit (cyr ''k'')) (lit (asc ''k''))) (Cat Bnd Eps))) prev s =
     map (shift (length (takeWhile is_space s)))
       (rxm U (Cat (Alt (lit (cyr ''k'')) (lit (asc ''k''))) (Cat Bnd Eps))
          (prev_after prev s (length (takeWhile is_space s))) (dropWhile is_space s))"
proof (rule rxm_Cat_Spaces)
  fix c cs p assume "is_space c"
  then have "c \<noteq> 0x43A \<and> c \<noteq> 0x6B" unfolding is_space_def by linarith
  then show "rxm U (Cat (Alt (lit (cyr ''k'')) (lit (asc ''k''))) (Cat Bnd Eps)) p (c # cs) = []"
    by (simp add: lit_def seq_def cyr_def cyr_table_def asc_def rxm_Cat_Alt rxm_Cat_Cat
        rxm_Cat_Atom_Cons del: rxm.simps(4))
qed

lemma marker_then_boundary:
  assumes mk: "mk = 0x43A \<or> mk = 0x6B" and after: "\<not> word_here U post"
  shows "rxm U (Cat (Alt (lit (cyr ''k'')) (lit (asc ''k''))) (Cat Bnd Eps)) prev (mk # post) = [(1, None)]"
proof -
  have "at_boundary U (Some mk) post"
    using marker_facts(2)[OF mk] after by (simp add: at_boundary_def word_before_def)
  then show ?thesis
    using mk
    by (auto simp add: lit_def seq_def cyr_def cyr_table_def asc_def rxm_Cat_Alt rxm_Cat_Cat
        rxm_Cat_Atom_Cons rxm_Cat_Eps rxm_Cat_Bnd shift_def simp del: rxm.simps(4))
qed

lemma thousands_200:
  assumes ws: "list_all is_space ws" and mk: "mk = 0x43A \<or> mk = 0x6B"
    and after: "\<not> word_here U post"
  shows "rxm U rx_thousands prev ([0x32, 0x30, 0x30] @ ws @ mk # post)
         = [(4 + length ws, Some [0x32, 0x30, 0x30])]"
proof -
  have nsp: "\<not> is_space mk" by (rule marker_facts(1)[OF mk])
  have nd: "\<not> is_digit U (hd (ws @ mk # post))"
    using ws marker_facts(3)[OF mk] space_not_digit
    by (cases ws) (auto simp add: list_all_iff)
  have dg: "is_digit U 0x32" "is_digit U 0x30" by (simp_all add: is_digit_def digit_value_def)
  have ao: "atom_ok U Digit = is_digit U" by (rule ext) simp
  have tw: "takeWhile (is_digit U) (0x32 # 0x30 # 0x30 # ws @ mk # post) = [0x32, 0x30, 0x30]"
    using dg nd by (cases "ws @ mk # post") simp_all
  have g: "rxm U (Grp (Rep Digit 2 (Some 3))) prev (0x32 # 0x30 # 0x30 # ws @ mk # post)
      = [(3, Some [0x32, 0x30, 0x30]), (2, Some [0x32, 0x30])]"
    by (simp add: ao tw del: takeWhile.simps)
  have t: "takeWhile is_space (ws @ mk # post) = ws" "dropWhile is_space (ws @ mk # post) = mk # post"
    using ws nsp by (simp_all add: takeWhile_spaces_then dropWhile_spaces_then)
  have c3: "cont U (Cat (Rep Space 0 None) (Cat (Alt (lit (cyr ''k'')) (lit (asc ''k''))) (Cat Bnd Eps)))
          prev (0x32 # 0x30 # 0x30 # ws @ mk # post) (3, Some [0x32, 0x30, 0x30])
        = [(4 + length ws, Some [0x32, 0x30, 0x30])]"
    by (simp add: cont_def thousands_after_spaces t marker_then_boundary[OF mk after] shift_def merge_def
        del: rxm.simps(4))
  have nm: "rxm U (Cat (Rep Space 0 None) (Cat (Alt (lit (cyr ''k'')) (lit (asc ''k''))) (Cat Bnd Eps)))
          p (0x30 # rest) = []" for p rest
    by (subst thousands_after_spaces)
       (simp add: is_space_def lit_def seq_def cyr_def cyr_table_def asc_def
        rxm_Cat_Alt rxm_Cat_Cat rxm_Cat_Atom_Cons del: rxm.simps(4))
  have c2: "cont U (Cat (Rep Space 0 None) (Cat (Alt (lit (cyr ''k'')) (lit (asc ''k''))) (Cat Bnd Eps)))
          prev (0x32 # 0x30 # 0x30 # ws @ mk # post) (2, Some [0x32, 0x30]) = []"
    by (simp add: cont_def nm del: rxm.simps(4))
  show ?thesis
    unfolding rx_thousands_def seq_def
    by (simp add: rxm_Cat_Grp g c3 c2 del: rxm.simps)
qed

lemma spaces_then_thousands:
  "rxm U (Cat (Rep Space 0 None) (Cat Eps rx_thousands)) prev s =
     map (shift (length (takeWhile is_space s)))
       (rxm U rx_thousands (prev_after prev s (length (takeWhile is_space s))) (dropWhile is_space s))"
proof -
  have "rxm U (Cat (Rep Space 0 None) (Cat Eps rx_thousands)) prev s =
     map (shift (length (takeWhile is_space s)))
       (rxm U (Cat Eps rx_thousands) (prev_after prev s (length (takeWhile is_space s))) (dropWhile is_space s))"
  proof (rule rxm_Cat_Spaces)
    fix c cs p assume "is_space c"
    then have "\<not> is_digit U c" by (rule space_not_digit)
    then show "rxm U (Cat Eps rx_thousands) p (c # cs) = []"
      by (simp add: rxm_Cat_Eps thousands_not_digit del: rxm.simps(4))
  qed
  then show ?thesis by (simp add: rxm_Cat_Eps del: rxm.simps(4))
qed

lemma ot_branch_Nil: "rxm U (Cat (seq [lit (cyr ''ot''), Rep Space 0 None]) rx_thousands) prev [] = []"
  by (simp add: seq_def lit_def cyr_def cyr_table_def rxm_Cat_Cat rxm_Cat_Atom_Nil del: rxm.simps(4))

lemma ot_branch_Cons:
  "rxm U (Cat (seq [lit (cyr ''ot''), Rep Space 0 None]) rx_thousands) prev (c # cs) =
     (if c = 0x43E then
        (case cs of [] \<Rightarrow> []
         | e # rest \<Rightarrow>
            if e = 0x442 then
              map (shift 1) (map (shift 1) (map (shift (length (takeWhile is_space rest)))
                (rxm U rx_thousands (prev_after (Some e) rest (length (takeWhile is_space rest)))
                   (dropWhile is_space rest))))
            else [])
      else [])"
  by (simp add: seq_def lit_def cyr_def cyr_table_def rxm_Cat_Cat rxm_Cat_Atom_Nil rxm_Cat_Atom_Cons
      rxm_Cat_Eps spaces_then_thousands del: rxm.simps(4) split: list.splits)

lemma salary_k_unfold:
  "rxm U rx_salary_k prev s =
     rxm U (Cat (seq [lit (cyr ''ot''), Rep Space 0 None]) rx_thousands) prev s @ rxm U rx_thousands prev s"
  by (simp add: rx_salary_k_split rxm_Cat_Opt del: rxm.simps(4))

text \<open>The text from the number on: \<open>200\<close>, white space or none, the marker, and the rest.\<close>

lemma salary_k_at_number:
  assumes ws: "list_all is_space ws" and mk: "mk = 0x43A \<or> mk = 0x6B"
    and after: "\<not> word_here U post"
  shows "rxm U rx_salary_k prev ([0x32, 0x30, 0x30] @ ws @ mk # post)
         = [(4 + length ws, Some [0x32, 0x30, 0x30])]"
  unfolding salary_k_unfold thousands_200[OF ws mk after]
  by (simp add: ot_branch_Cons del: rxm.simps)

lemma salary_k_at_from:
  assumes sp: "list_all is_space sp" and ws: "list_all is_space ws" and mk: "mk = 0x43A \<or> mk = 0x6B"
    and after: "\<not> word_here U post"
  shows "rxm U rx_salary_k prev (cyr ''ot'' @ sp @ [0x32, 0x30, 0x30] @ ws @ mk # post)
         = [(6 + length sp + length ws, Some [0x32, 0x30, 0x30])]"
proof -
  define X where "X = 0x30 # 0x30 # ws @ mk # post"
  have nsp: "\<not> is_space 0x32" by (simp add: is_space_def)
  have t: "takeWhile is_space (sp @ 0x32 # X) = sp" "dropWhile is_space (sp @ 0x32 # X) = 0x32 # X"
    using sp nsp by (simp_all add: takeWhile_spaces_then dropWhile_spaces_then)
  have nd: "\<not> is_digit U 0x43E"
    by (simp add: is_digit_def digit_value_def tabulated_def is_cyrillic_def)
  have c: "cyr ''ot'' @ sp @ [0x32, 0x30, 0x30] @ ws @ mk # post = 0x43E # 0x442 # sp @ 0x32 # X"
    by (simp add: cyr_def cyr_table_def X_def)
  have t0: "rxm U rx_thousands prev (0x43E # 0x442 # sp @ 0x32 # X) = []"
    using nd by (rule thousands_not_digit)
  have th: "rxm U rx_thousands p (0x32 # X) = [(4 + length ws, Some [0x32, 0x30, 0x30])]" for p
    using thousands_200[OF ws mk after, of p] by (simp add: X_def)
  have br: "rxm U (Cat (seq [lit (cyr ''ot''), Rep Space 0 None]) rx_thousands) prev (0x43E # 0x442 # sp @ 0x32 # X)
      = [(6 + length sp + length ws, Some [0x32, 0x30, 0x30])]"
    by (simp add: ot_branch_Cons t th shift_def del: rxm.simps)
  show ?thesis
    unfolding c salary_k_unfold br t0 by simp
qed

lemma py_int_200: "py_int U [0x32, 0x30, 0x30] = 200"
  by (simp add: py_int_def digit_value_def)

lemma salary_range_norm: "norm_text U salary_range_request = salary_range_request"
  by (simp add: salary_range_request_def interp_eval del: rxm.simps(4))

lemma salary_range_lower: "lower U salary_range_request = salary_range_request"
  by (simp add: salary_range_request_def interp_eval)

lemma salary_range_salary: "detect_salary U salary_range_request = Some 100000"
  by (simp add: salary_range_request_def interp_eval del: rxm.simps(4))

lemma salary_200_norm: "norm_text U salary_200_request = salary_200_request"
  by (simp add: salary_200_request_def interp_eval del: rxm.simps(4))

lemma salary_200_lower:
  "lower U salary_200_request = cyr ''naydi 5 vakansiy '' @ asc ''python '' @ cyr ''ot 200k''"
  by (simp add: salary_200_request_def interp_eval)

lemma salary_200_search:
  "re_search U rx_salary_k (cyr ''naydi 5 vakansiy '' @ asc ''python '' @ cyr ''ot 200k'')
     = Some (24, 7, Some (asc ''200''))"
  by (simp add: interp_eval del: rxm.simps(4))

text \<open>
  Claim C4 fails as stated: \<open>ot 100k do 200k\<close> contains \<open>200k\<close>, and the salary is
  100000, the number of the first match of the pattern.
\<close>

theorem salary_200k_not_first:
  "contains (asc ''200'' @ cyr ''k'') salary_range_request
   \<and> salary (ai_interpret_user_goal U0 salary_range_request) = Some 100000"
proof -
  have "contains (asc ''200'' @ cyr ''k'') salary_range_request"
    by (simp add: salary_range_request_def asc_def cyr_def cyr_table_def)
  then show ?thesis
    by (simp add: ai_interpret_user_goal_def Let_def salary_range_norm salary_range_lower
        salary_range_salary)
qed

text \<open>
  Claim C4, amended. Let the normalised lower-case input be some text, then \<open>ot\<close>
  with white space or none after it, or nothing, then \<open>200\<close>, white space or none,
  the marker (Cyrillic or Latin \<open>k\<close>), and then nothing or a non-word character.
  If the pattern of the salary in thousands matches at no position of the text before,
  the salary is 200000, whatever digits stand there. In general the salary is 1000 times
  the number of the first match of the pattern, wherever \<open>200k\<close> may stand.
\<close>

theorem salary_first_200k:
  "(lower U (norm_text U s) = pre @ frm @ asc ''200'' @ ws @ [mk] @ post
      \<and> (frm = [] \<or> frm = cyr ''ot'' @ sp \<and> list_all is_space sp)
      \<and> (\<forall>i<length pre. match_at U rx_salary_k (lower U (norm_text U s)) i = [])
      \<and> list_all is_space ws \<and> (mk = 0x43A \<or> mk = 0x6B)
      \<and> (post = [] \<or> \<not> is_word U (hd post))
    \<longrightarrow> salary (ai_interpret_user_goal U s) = Some 200000)
   \<and> (\<forall>m. re_search U rx_salary_k (lower U (norm_text U s)) = Some m
        \<longrightarrow> salary (ai_interpret_user_goal U s) = Some (py_int U (group1 m) * 1000))"
proof (intro conjI impI allI)
  let ?tl = "lower U (norm_text U s)"
  have sal: "salary (ai_interpret_user_goal U s) = detect_salary U ?tl"
    by (simp add: ai_interpret_user_goal_def Let_def)
  {
    fix m assume "re_search U rx_salary_k ?tl = Some m"
    then show "salary (ai_interpret_user_goal U s) = Some (py_int U (group1 m) * 1000)"
      by (simp add: sal detect_salary_def)
  }
  assume h: "?tl = pre @ frm @ asc ''200'' @ ws @ [mk] @ post
      \<and> (frm = [] \<or> frm = cyr ''ot'' @ sp \<and> list_all is_space sp)
      \<and> (\<forall>i<length pre. match_at U rx_salary_k ?tl i = [])
      \<and> list_all is_space ws \<and> (mk = 0x43A \<or> mk = 0x6B)
      \<and> (post = [] \<or> \<not> is_word U (hd post))"
  then have tl: "?tl = pre @ (frm @ [0x32, 0x30, 0x30] @ ws @ mk # post)"
    by (simp add: asc_def)
  from h have after: "\<not> word_here U post"
    by (cases post) (auto simp add: word_here_def)
  from h have ws: "list_all is_space ws" and mk: "mk = 0x43A \<or> mk = 0x6B"
    and frm: "frm = [] \<or> frm = cyr ''ot'' @ sp \<and> list_all is_space sp"
    and earlier: "\<forall>i<length pre. match_at U rx_salary_k ?tl i = []" by blast+
  have "\<exists>k. rxm U rx_salary_k (prev_after None pre (length pre)) (frm @ [0x32, 0x30, 0x30] @ ws @ mk # post)
           = [(k, Some [0x32, 0x30, 0x30])]"
    using frm
  proof
    assume "frm = []"
    then show ?thesis
      using salary_k_at_number[OF ws mk after, of "prev_after None pre (length pre)"] by simp
  next
    assume "frm = cyr ''ot'' @ sp \<and> list_all is_space sp"
    then show ?thesis
      using salary_k_at_from[OF _ ws mk after, of sp "prev_after None pre (length pre)"] by simp
  qed
  then obtain k where "rxm U rx_salary_k (prev_after None pre (length pre))
        (frm @ [0x32, 0x30, 0x30] @ ws @ mk # post) = [(k, Some [0x32, 0x30, 0x30])]"
    by blast
  then have "match_at U rx_salary_k (pre @ (frm @ [0x32, 0x30, 0x30] @ ws @ mk # post)) (length pre)
      = [(k, Some [0x32, 0x30, 0x30])]"
    by (simp only: match_at_append)
  then have "match_at U rx_salary_k ?tl (length pre) = [(k, Some [0x32, 0x30, 0x30])]"
    by (simp only: tl)
  with earlier have "re_search U rx_salary_k ?tl = Some (length pre, k, Some [0x32, 0x30, 0x30])"
    by (subst re_search_Some_iff) (simp add: tl)
  then show "salary (ai_interpret_user_goal U s) = Some 200000"
    by (simp add: sal detect_salary_def group1_def py_int_200)
qed

theorem salary_first_200k_witness:
  "salary (ai_interpret_user_goal U0 salary_200_request) = Some 200000
   \<and> lower U0 (norm_text U0 salary_200_request)
       = (cyr ''naydi 5 vakansiy '' @ asc ''python '') @ (cyr ''ot'' @ asc '' '') @ asc ''200'' @ []
          @ [0x43A] @ []
   \<and> length (cyr ''naydi 5 vakansiy '' @ asc ''python '') = 24
   \<and> re_search U0 rx_salary_k (lower U0 (norm_text U0 salary_200_request))
       = Some (24, 7, Some (asc ''200''))"
proof -
  let ?tl = "lower U0 (norm_text U0 salary_200_request)"
  have tl: "?tl = cyr ''naydi 5 vakansiy '' @ asc ''python '' @ cyr ''ot 200k''"
    by (simp add: salary_200_norm salary_200_lower)
  have shape: "?tl = (cyr ''naydi 5 vakansiy '' @ asc ''python '') @ (cyr ''ot'' @ asc '' '') @ asc ''200'' @ []
          @ [0x43A] @ []"
    unfolding tl by (simp add: asc_def cyr_def cyr_table_def)
  have first: "re_search U0 rx_salary_k ?tl = Some (24, 7, Some (asc ''200''))"
    unfolding tl by (rule salary_200_search)
  then have earlier: "\<forall>i<24. match_at U0 rx_salary_k ?tl i = []"
    unfolding re_search_Some_iff by blast
  have len: "length (cyr ''naydi 5 vakansiy '' @ asc ''python '') = 24"
    by (simp add: asc_def cyr_def)
  have side: "list_all is_space (asc '' '') \<and> list_all is_space ([]::ustr)
      \<and> ((0x43A::nat) = 0x43A \<or> (0x43A::nat) = 0x6B)"
    by (simp add: asc_def is_space_def)
  from salary_first_200k[of U0 salary_200_request "cyr ''naydi 5 vakansiy '' @ asc ''python ''"
      "cyr ''ot'' @ asc '' ''" "[]" "0x43A" "[]" "asc '' ''"] shape side earlier len
  have "salary (ai_interpret_user_goal U0 salary_200_request) = Some 200000"
    by simp
  with shape len first show ?thesis by simp
qed

section \<open>Collecting the vacancies: first occurrences\<close>




















end
